theory Spec2Isabelle
  imports Main "HOL-Library.AList" "HOL-Library.Sublist"
begin

section \<open>The syntax tree\<close>

text \<open>
  The visitor of \<^verbatim>\<open>flake8_return/visitors.py\<close> walks Python's \<^verbatim>\<open>ast\<close> tree. The
  embedding keeps, of every node class, the fields that the visitor reads or descends
  into, in the order of the class's \<^verbatim>\<open>_fields\<close> (the order of \<^verbatim>\<open>generic_visit\<close>);
  identifiers, operators, expression contexts and type comments have no effect on the
  visitor and are left out. Line and column numbers are Python integers.

  Expressions: a \<^verbatim>\<open>Name\<close> carries \<^verbatim>\<open>id\<close>, \<^verbatim>\<open>lineno\<close> and \<^verbatim>\<open>col_offset\<close>; a
  \<^verbatim>\<open>Constant\<close> its literal value; a \<^verbatim>\<open>Tuple\<close> its \<^verbatim>\<open>elts\<close>. Every other
  expression class (\<^verbatim>\<open>Call\<close>, \<^verbatim>\<open>BinOp\<close>, \<^verbatim>\<open>Attribute\<close>, \<^verbatim>\<open>Subscript\<close>, \<^verbatim>\<open>Starred\<close>,
  \<^verbatim>\<open>Lambda\<close>, \<dots>) and every helper class below an expression (\<^verbatim>\<open>arguments\<close>,
  \<^verbatim>\<open>keyword\<close>, \<^verbatim>\<open>comprehension\<close>, \<^verbatim>\<open>withitem\<close>) is \<open>OtherExpr\<close> with its child nodes:
  the visitor has no method for them, so \<^verbatim>\<open>generic_visit\<close> handles them alike.
\<close>

datatype literal = NoneLit | TrueLit | FalseLit | OtherLit

datatype expr =
    Name string int int
  | Constant literal
  | Tuple "expr list"
  | OtherExpr "expr list"

text \<open>
  Statements. \<open>FunctionDef args body decorator_list returns lineno col_offset\<close>;
  \<open>Return value\<close>; \<open>Assign targets value\<close>; \<open>For target iter body orelse\<close>;
  \<open>While test body orelse\<close>; \<open>If test body orelse\<close>; \<open>With items body\<close>;
  \<open>Raise exc cause\<close>; \<open>Try body handlers orelse finalbody\<close>; \<open>Assert test msg\<close>.
  The fields are those of Python 3.8 to 3.11 (\<^verbatim>\<open>type_params\<close> of 3.12 is not modelled);
  \<open>args\<close> is the \<^verbatim>\<open>arguments\<close> node. The loops and \<open>Try\<close> end with \<^verbatim>\<open>end_lineno\<close>, which
  is \<open>None\<close> when the parser gave no such attribute or gave \<^verbatim>\<open>None\<close>. The handlers
  of a \<open>Try\<close> are \<^verbatim>\<open>ExceptHandler\<close> nodes. Every other class that may hold statements
  (\<^verbatim>\<open>Expr\<close>, \<^verbatim>\<open>AugAssign\<close>, \<^verbatim>\<open>ClassDef\<close>, \<^verbatim>\<open>Pass\<close>, \<^verbatim>\<open>Match\<close>, and the helper classes
  \<^verbatim>\<open>ExceptHandler\<close> and \<^verbatim>\<open>match_case\<close>) is \<open>OtherStmt\<close> with its children in field
  order.
\<close>

datatype stmt =
    FunctionDef expr "stmt list" "expr list" "expr option" (lineno: int) (col_offset: int)
  | AsyncFunctionDef expr "stmt list" "expr list" "expr option" (lineno: int) (col_offset: int)
  | Return (return_value: "expr option") (lineno: int) (col_offset: int)
  | Assign "expr list" expr (lineno: int) (col_offset: int)
  | For expr expr "stmt list" "stmt list" (lineno: int) (col_offset: int) "int option"
  | AsyncFor expr expr "stmt list" "stmt list" (lineno: int) (col_offset: int) "int option"
  | While expr "stmt list" "stmt list" (lineno: int) (col_offset: int) "int option"
  | IfStmt expr "stmt list" "stmt list" (lineno: int) (col_offset: int)
  | With "expr list" "stmt list" (lineno: int) (col_offset: int)
  | AsyncWith "expr list" "stmt list" (lineno: int) (col_offset: int)
  | Raise "expr option" "expr option" (lineno: int) (col_offset: int)
  | Try "stmt list" "stmt list" "stmt list" "stmt list" (lineno: int) (col_offset: int) "int option"
  | Assert expr "expr option" (lineno: int) (col_offset: int)
  | OtherStmt "child list" (lineno: int) (col_offset: int)
and child = ChildExpr expr | ChildStmt stmt

section \<open>The visitor's state\<close>

text \<open>
  One record per function on \<^verbatim>\<open>self._stack\<close>, with the five entries of the dictionary
  that \<^verbatim>\<open>_visit_with_stack\<close> pushes. \<open>assigns\<close> and \<open>refs\<close> are
  \<^verbatim>\<open>defaultdict(list)\<close>: a key is present once it has been indexed. \<open>tries\<close> and
  \<open>loops\<close> are dictionaries from a start line to an end line, kept in insertion order
  (\<open>AList.update\<close> overwrites a present key in place, as Python does). \<open>returns\<close> is
  the list of \<^verbatim>\<open>ast.Return\<close> nodes.
\<close>

type_synonym NameToLines = "string \<rightharpoonup> int list"
type_synonym BlockPosition = "(int \<times> int) list"

record scope =
  assigns :: NameToLines
  refs :: NameToLines
  tries :: BlockPosition
  loops :: BlockPosition
  returns :: "stmt list"

datatype error_kind = UnnecessaryReturnNone | ImplicitReturnValue | ImplicitReturn | UnnecessaryAssign

text \<open>A finding is what \<^verbatim>\<open>error_from_node\<close> builds: the error class with the node's line and column.\<close>

datatype diagnostic = Diagnostic (kind: error_kind) (line: int) (column: int)

text \<open>
  The visitor object: \<^verbatim>\<open>self._stack\<close> (kept with its top at the head: \<^verbatim>\<open>_stack[-1]\<close> is
  the head, \<^verbatim>\<open>append\<close> is \<open>#\<close>, \<^verbatim>\<open>pop\<close> drops the head), \<^verbatim>\<open>self.errors\<close> and
  \<^verbatim>\<open>self._loop_count\<close>.
\<close>

record visitor =
  stack :: "scope list"
  errors :: "diagnostic list"
  loop_count :: int

text \<open>
  Python's \<^verbatim>\<open>IndexError\<close>, told apart by the expression that raises it:
  \<^verbatim>\<open>self._stack[-1]\<close> (or \<^verbatim>\<open>self._stack.pop()\<close>) on an empty stack, \<^verbatim>\<open>node.targets[0]\<close>
  on an empty target list, \<^verbatim>\<open>last_node.body[-1]\<close> on an empty body.
\<close>

datatype error = EmptyStack | NoTargets | EmptyBody

definition bind :: "error + 'a \<Rightarrow> ('a \<Rightarrow> error + 'b) \<Rightarrow> error + 'b" where
  "bind m f = (case m of Inl e \<Rightarrow> Inl e | Inr x \<Rightarrow> f x)"

definition new_scope :: scope where
  "new_scope = \<lparr>assigns = Map.empty, refs = Map.empty, tries = [], loops = [], returns = []\<rparr>"

definition initial :: visitor where
  "initial = \<lparr>stack = [], errors = [], loop_count = 0\<rparr>"

text \<open>\<^verbatim>\<open>d[name].append(line)\<close> on a \<^verbatim>\<open>defaultdict(list)\<close>.\<close>

definition append_line :: "NameToLines \<Rightarrow> string \<Rightarrow> int \<Rightarrow> NameToLines" where
  "append_line d name l = d(name \<mapsto> (case d name of None \<Rightarrow> [] | Some ls \<Rightarrow> ls) @ [l])"

text \<open>
  \<^verbatim>\<open>self.error_from_node(cls, node)\<close>, inherited from \<^verbatim>\<open>flake8_plugin_utils.Visitor\<close>
  together with \<^verbatim>\<open>self.errors\<close>: append \<^verbatim>\<open>cls(node.lineno, node.col_offset)\<close>.
\<close>

definition error_at :: "error_kind \<Rightarrow> int \<Rightarrow> int \<Rightarrow> visitor \<Rightarrow> visitor" where
  "error_at k l c v = v\<lparr>errors := errors v @ [Diagnostic k l c]\<rparr>"

definition error_from_node :: "error_kind \<Rightarrow> stmt \<Rightarrow> visitor \<Rightarrow> visitor" where
  "error_from_node k node v = error_at k (lineno node) (col_offset node) v"

section \<open>Walking expressions\<close>

text \<open>
  \<^verbatim>\<open>visit_Name\<close>: with a scope on the stack, the line is appended to \<open>refs\<close> of the top
  scope; without one nothing happens. The node's children are not visited.
\<close>

definition visit_Name :: "string \<Rightarrow> int \<Rightarrow> visitor \<Rightarrow> visitor" where
  "visit_Name name l v =
     (case stack v of
        [] \<Rightarrow> v
      | sc # rest \<Rightarrow> v\<lparr>stack := sc\<lparr>refs := append_line (refs sc) name l\<rparr> # rest\<rparr>)"

text \<open>
  \<^verbatim>\<open>visit\<close> on an expression: \<^verbatim>\<open>visit_Name\<close> for a name, \<^verbatim>\<open>generic_visit\<close> (the
  children in order) for everything else. No expression class holds a statement, and
  \<^verbatim>\<open>visit_Name\<close> cannot raise, so this part of the walk is a total state update.
\<close>

fun visit_expr :: "expr \<Rightarrow> visitor \<Rightarrow> visitor"
  and visit_exprs :: "expr list \<Rightarrow> visitor \<Rightarrow> visitor" where
  "visit_expr (Name name l c) v = visit_Name name l v"
| "visit_expr (Constant k) v = v"
| "visit_expr (Tuple elts) v = visit_exprs elts v"
| "visit_expr (OtherExpr children) v = visit_exprs children v"
| "visit_exprs [] v = v"
| "visit_exprs (e # es) v = visit_exprs es (visit_expr e v)"

text \<open>\<^verbatim>\<open>generic_visit(node)\<close> for an expression node: its children, not the node itself.\<close>

fun generic_visit_expr :: "expr \<Rightarrow> visitor \<Rightarrow> visitor" where
  "generic_visit_expr (Name name l c) v = v"
| "generic_visit_expr (Constant k) v = v"
| "generic_visit_expr (Tuple elts) v = visit_exprs elts v"
| "generic_visit_expr (OtherExpr children) v = visit_exprs children v"

fun visit_expr_opt :: "expr option \<Rightarrow> visitor \<Rightarrow> visitor" where
  "visit_expr_opt None v = v"
| "visit_expr_opt (Some e) v = visit_expr e v"

fun is_Tuple :: "expr \<Rightarrow> bool" where
  "is_Tuple (Tuple elts) = True"
| "is_Tuple e = False"

text \<open>
  \<^verbatim>\<open>_visit_assign_target\<close>. \<open>py38\<close> is \<^verbatim>\<open>sys.version_info >= (3, 8)\<close>. A tuple target
  recurses into its elements. A name is appended to \<open>assigns\<close> of the top scope
  (\<^verbatim>\<open>self.assigns\<close> raises on an empty stack), unless the interpreter is older than 3.8
  and the walk is inside a loop. Anything else is walked with \<^verbatim>\<open>generic_visit\<close>.
\<close>

fun visit_assign_target :: "bool \<Rightarrow> expr \<Rightarrow> visitor \<Rightarrow> error + visitor"
  and visit_assign_targets :: "bool \<Rightarrow> expr list \<Rightarrow> visitor \<Rightarrow> error + visitor" where
  "visit_assign_target py38 (Tuple elts) v = visit_assign_targets py38 elts v"
| "visit_assign_target py38 (Name name l c) v =
     (if py38 \<or> loop_count v = 0 then
        (case stack v of
           [] \<Rightarrow> Inl EmptyStack
         | sc # rest \<Rightarrow> Inr (v\<lparr>stack := sc\<lparr>assigns := append_line (assigns sc) name l\<rparr> # rest\<rparr>))
      else Inr (generic_visit_expr (Name name l c) v))"
| "visit_assign_target py38 (Constant k) v = Inr (generic_visit_expr (Constant k) v)"
| "visit_assign_target py38 (OtherExpr children) v = Inr (generic_visit_expr (OtherExpr children) v)"
| "visit_assign_targets py38 [] v = Inr v"
| "visit_assign_targets py38 (n # ns) v =
     bind (visit_assign_target py38 n v) (visit_assign_targets py38 ns)"

section \<open>The checks\<close>

text \<open>
  Modelled from the spec: \<^verbatim>\<open>is_none\<close> and \<^verbatim>\<open>is_false\<close> of \<^verbatim>\<open>flake8_return/utils.py\<close>,
  which is not among the sources. The spec speaks of a value that "is exactly the None
  literal" and of a condition that is "a statically-false literal". \<^verbatim>\<open>is_none\<close> is
  also applied to the absent value of a bare return, which is no literal.
\<close>

fun is_none :: "expr option \<Rightarrow> bool" where
  "is_none (Some (Constant NoneLit)) = True"
| "is_none e = False"

fun is_false :: "expr \<Rightarrow> bool" where
  "is_false (Constant FalseLit) = True"
| "is_false e = False"

subsection \<open>Unnecessary assignment\<close>

text \<open>
  The first loop of \<^verbatim>\<open>_has_refs_before_next_assign\<close>, over the sorted assignment
  lines: it leaves in \<open>before_assign\<close> the last line not beyond the return and stops at
  the first line beyond it, which becomes \<open>after_assign\<close>.
\<close>

fun assign_bounds :: "int \<Rightarrow> int \<Rightarrow> int list \<Rightarrow> int \<times> int option" where
  "assign_bounds return_lineno before_assign [] = (before_assign, None)"
| "assign_bounds return_lineno before_assign (l # ls) =
     (if l > return_lineno then (before_assign, Some l)
      else assign_bounds return_lineno (if l \<le> return_lineno then l else before_assign) ls)"

text \<open>
  The second loop, over the read lines in recorded order. \<^verbatim>\<open>if after_assign:\<close> is
  Python truthiness: \<^verbatim>\<open>None\<close> and \<open>0\<close> both take the \<^verbatim>\<open>elif\<close>.
\<close>

fun refs_loop :: "int \<Rightarrow> int \<Rightarrow> int option \<Rightarrow> int list \<Rightarrow> bool" where
  "refs_loop return_lineno before_assign after_assign [] = False"
| "refs_loop return_lineno before_assign after_assign (l # ls) =
     (if l = return_lineno then refs_loop return_lineno before_assign after_assign ls
      else (case after_assign of
              Some a \<Rightarrow>
                if a \<noteq> 0 then
                  (if before_assign < l \<and> l \<le> a then True
                   else refs_loop return_lineno before_assign after_assign ls)
                else if before_assign < l then True
                else refs_loop return_lineno before_assign after_assign ls
            | None \<Rightarrow>
                if before_assign < l then True
                else refs_loop return_lineno before_assign after_assign ls))"

definition has_refs_before_next_assign :: "int list \<Rightarrow> int list \<Rightarrow> int \<Rightarrow> bool" where
  "has_refs_before_next_assign assign_lines ref_lines return_lineno =
     (case assign_bounds return_lineno 0 (sort assign_lines) of
        (before_assign, after_assign) \<Rightarrow>
          refs_loop return_lineno before_assign after_assign ref_lines)"

text \<open>One of the inner loops of \<^verbatim>\<open>_has_refs_or_assigns_within_try_or_loop\<close>, over \<^verbatim>\<open>items()\<close>.\<close>

fun within_block :: "int \<Rightarrow> BlockPosition \<Rightarrow> bool" where
  "within_block item [] = False"
| "within_block item ((start, stop) # rest) =
     (if start < item \<and> item \<le> stop then True else within_block item rest)"

fun within_try_or_loop :: "BlockPosition \<Rightarrow> BlockPosition \<Rightarrow> int list \<Rightarrow> bool" where
  "within_try_or_loop ts ls [] = False"
| "within_try_or_loop ts ls (item # items) =
     (if within_block item ts then True
      else if within_block item ls then True
      else within_try_or_loop ts ls items)"

text \<open>The items are \<^verbatim>\<open>[*self.refs[var_name], *self.assigns[var_name]]\<close>; both keys are present at the call.\<close>

definition has_refs_or_assigns_within_try_or_loop :: "scope \<Rightarrow> int list \<Rightarrow> int list \<Rightarrow> bool" where
  "has_refs_or_assigns_within_try_or_loop sc ref_lines assign_lines =
     within_try_or_loop (tries sc) (loops sc) (ref_lines @ assign_lines)"

text \<open>\<^verbatim>\<open>_check_unnecessary_assign(node)\<close>, for the value expression of a return.\<close>

fun check_unnecessary_assign :: "bool \<Rightarrow> expr \<Rightarrow> visitor \<Rightarrow> error + visitor" where
  "check_unnecessary_assign py38 (Name var_name return_lineno c) v =
     (case stack v of
        [] \<Rightarrow> Inl EmptyStack
      | sc # rest \<Rightarrow>
          (case assigns sc var_name of
             None \<Rightarrow> Inr v
           | Some assign_lines \<Rightarrow>
               (case refs sc var_name of
                  None \<Rightarrow> Inr (error_at UnnecessaryAssign return_lineno c v)
                | Some ref_lines \<Rightarrow>
                    if has_refs_before_next_assign assign_lines ref_lines return_lineno then Inr v
                    else if py38 \<and> has_refs_or_assigns_within_try_or_loop sc ref_lines assign_lines
                    then Inr v
                    else Inr (error_at UnnecessaryAssign return_lineno c v))))"
| "check_unnecessary_assign py38 node v = Inr v"

text \<open>The loop that closes \<^verbatim>\<open>_check_function\<close>: every return with a value is checked.\<close>

fun check_unnecessary_assigns :: "bool \<Rightarrow> stmt list \<Rightarrow> visitor \<Rightarrow> error + visitor" where
  "check_unnecessary_assigns py38 [] v = Inr v"
| "check_unnecessary_assigns py38 (n # ns) v =
     (case return_value n of
        None \<Rightarrow> check_unnecessary_assigns py38 ns v
      | Some e \<Rightarrow> bind (check_unnecessary_assign py38 e v) (check_unnecessary_assigns py38 ns))"

subsection \<open>Unnecessary return None, implicit return value\<close>

fun unnecessary_return_none_loop :: "stmt list \<Rightarrow> visitor \<Rightarrow> visitor" where
  "unnecessary_return_none_loop [] v = v"
| "unnecessary_return_none_loop (node # nodes) v =
     unnecessary_return_none_loop nodes
       (if is_none (return_value node) then error_from_node UnnecessaryReturnNone node v else v)"

definition check_unnecessary_return_none :: "visitor \<Rightarrow> error + visitor" where
  "check_unnecessary_return_none v =
     (case stack v of
        [] \<Rightarrow> Inl EmptyStack
      | sc # rest \<Rightarrow> Inr (unnecessary_return_none_loop (returns sc) v))"

fun implicit_return_value_loop :: "stmt list \<Rightarrow> visitor \<Rightarrow> visitor" where
  "implicit_return_value_loop [] v = v"
| "implicit_return_value_loop (node # nodes) v =
     implicit_return_value_loop nodes
       (if return_value node = None then error_from_node ImplicitReturnValue node v else v)"

definition check_implicit_return_value :: "visitor \<Rightarrow> error + visitor" where
  "check_implicit_return_value v =
     (case stack v of
        [] \<Rightarrow> Inl EmptyStack
      | sc # rest \<Rightarrow> Inr (implicit_return_value_loop (returns sc) v))"

subsection \<open>Implicit return\<close>

lemma size_last_le:
  "xs \<noteq> [] \<Longrightarrow> size (last xs) \<le> size_list size xs"
  by (induction xs) auto

text \<open>
  \<^verbatim>\<open>_check_implicit_return(last_node)\<close>. \<^verbatim>\<open>body[-1]\<close> of a \<^verbatim>\<open>with\<close> whose body is
  empty raises; the \<^verbatim>\<open>[-1]\<close> of the other branches stands behind a test for emptiness.
\<close>

function (sequential) check_implicit_return :: "stmt \<Rightarrow> visitor \<Rightarrow> error + visitor" where
  "check_implicit_return (IfStmt test body orelse l c) v =
     (if body = [] \<or> orelse = [] then Inr (error_from_node ImplicitReturn (IfStmt test body orelse l c) v)
      else bind (check_implicit_return (last body) v) (check_implicit_return (last orelse)))"
| "check_implicit_return (For target iter body orelse l c e) v =
     (if orelse \<noteq> [] then check_implicit_return (last orelse) v
      else Inr (error_from_node ImplicitReturn (For target iter body orelse l c e) v))"
| "check_implicit_return (AsyncFor target iter body orelse l c e) v =
     (if orelse \<noteq> [] then check_implicit_return (last orelse) v
      else Inr (error_from_node ImplicitReturn (AsyncFor target iter body orelse l c e) v))"
| "check_implicit_return (With items body l c) v =
     (if body = [] then Inl EmptyBody else check_implicit_return (last body) v)"
| "check_implicit_return (AsyncWith items body l c) v =
     (if body = [] then Inl EmptyBody else check_implicit_return (last body) v)"
| "check_implicit_return (Assert test msg l c) v =
     (if is_false test then Inr v else Inr (error_from_node ImplicitReturn (Assert test msg l c) v))"
| "check_implicit_return (Return val l c) v = Inr v"
| "check_implicit_return (Raise exc cause l c) v = Inr v"
| "check_implicit_return (While test body orelse l c e) v = Inr v"
| "check_implicit_return (Try body handlers orelse finalbody l c e) v = Inr v"
| "check_implicit_return last_node v = Inr (error_from_node ImplicitReturn last_node v)"
  by pat_completeness auto

termination
proof (relation "measure (\<lambda>(node, v). size node)")
qed (auto simp: le_imp_less_Suc size_last_le trans_le_add1 trans_le_add2)

subsection \<open>The checks of one function\<close>

fun is_Return :: "stmt \<Rightarrow> bool" where
  "is_Return (Return val l c) = True"
| "is_Return node = False"

text \<open>\<^verbatim>\<open>_result_exists\<close>: some return has a value that is not the None literal.\<close>

fun result_exists :: "stmt list \<Rightarrow> bool" where
  "result_exists [] = False"
| "result_exists (node # nodes) =
     (if return_value node \<noteq> None \<and> \<not> is_none (return_value node) then True else result_exists nodes)"

definition check_unnecessary_assign_returns :: "bool \<Rightarrow> visitor \<Rightarrow> error + visitor" where
  "check_unnecessary_assign_returns py38 v =
     (case stack v of
        [] \<Rightarrow> Inl EmptyStack
      | sc # rest \<Rightarrow> check_unnecessary_assigns py38 (returns sc) v)"

text \<open>\<^verbatim>\<open>_check_function(node)\<close>; of the node only \<^verbatim>\<open>node.body\<close> is read, and it is the argument.\<close>

definition check_function :: "bool \<Rightarrow> stmt list \<Rightarrow> visitor \<Rightarrow> error + visitor" where
  "check_function py38 body v =
     (case stack v of
        [] \<Rightarrow> Inl EmptyStack
      | sc # rest \<Rightarrow>
          if returns sc = [] \<or> body = [] then Inr v
          else if length body = 1 \<and> is_Return (last body) then Inr v
          else if \<not> result_exists (returns sc) then check_unnecessary_return_none v
          else
            bind (check_implicit_return_value v) (\<lambda>v1.
            bind (check_implicit_return (last body) v1) (\<lambda>v2.
            check_unnecessary_assign_returns py38 v2)))"

section \<open>Walking statements\<close>

definition push :: "visitor \<Rightarrow> visitor" where
  "push v = v\<lparr>stack := new_scope # stack v\<rparr>"

definition pop :: "visitor \<Rightarrow> error + visitor" where
  "pop v = (case stack v of [] \<Rightarrow> Inl EmptyStack | sc # rest \<Rightarrow> Inr (v\<lparr>stack := rest\<rparr>))"

text \<open>
  \<^verbatim>\<open>_visit_loop\<close> before and after its \<^verbatim>\<open>generic_visit\<close>. From Python 3.8 on, the span
  \<^verbatim>\<open>loops[node.lineno] = node.end_lineno\<close> is stored when a scope is on the stack and
  the node has an end line; before 3.8 the loop counter goes up and down instead.
\<close>

definition enter_loop :: "bool \<Rightarrow> int \<Rightarrow> int option \<Rightarrow> visitor \<Rightarrow> visitor" where
  "enter_loop py38 l end_lineno v =
     (if py38 then
        (case stack v of
           [] \<Rightarrow> v
         | sc # rest \<Rightarrow>
             (case end_lineno of
                None \<Rightarrow> v
              | Some e \<Rightarrow> v\<lparr>stack := sc\<lparr>loops := AList.update l e (loops sc)\<rparr> # rest\<rparr>))
      else v\<lparr>loop_count := loop_count v + 1\<rparr>)"

definition leave_loop :: "bool \<Rightarrow> visitor \<Rightarrow> visitor" where
  "leave_loop py38 v = (if py38 then v else v\<lparr>loop_count := loop_count v - 1\<rparr>)"

text \<open>\<^verbatim>\<open>visit_Try\<close> before its \<^verbatim>\<open>generic_visit\<close>.\<close>

definition enter_try :: "bool \<Rightarrow> int \<Rightarrow> int option \<Rightarrow> visitor \<Rightarrow> visitor" where
  "enter_try py38 l end_lineno v =
     (if py38 then
        (case stack v of
           [] \<Rightarrow> v
         | sc # rest \<Rightarrow>
             (case end_lineno of
                None \<Rightarrow> v
              | Some e \<Rightarrow> v\<lparr>stack := sc\<lparr>tries := AList.update l e (tries sc)\<rparr> # rest\<rparr>))
      else v)"

text \<open>
  \<^verbatim>\<open>visit_Assign\<close>, after the test for an empty stack has passed and up to the choice of
  the target: the read of a bare name on the right, then \<^verbatim>\<open>generic_visit(node.value)\<close>.
\<close>

fun visit_assign_value :: "expr \<Rightarrow> visitor \<Rightarrow> visitor" where
  "visit_assign_value (Name name l c) v = generic_visit_expr (Name name l c) (visit_Name name l v)"
| "visit_assign_value val v = generic_visit_expr val v"

text \<open>
  \<^verbatim>\<open>visit\<close> on a statement. A function definition is \<^verbatim>\<open>_visit_with_stack\<close>: push a
  scope, walk the fields, run \<^verbatim>\<open>_check_function\<close>, pop. \<^verbatim>\<open>visit_Return\<close> appends the
  node to \<^verbatim>\<open>self.returns\<close>, which raises on an empty stack, and walks the value. The
  classes with no method of their own are walked field by field.
\<close>

fun visit_stmt :: "bool \<Rightarrow> stmt \<Rightarrow> visitor \<Rightarrow> error + visitor"
  and visit_stmts :: "bool \<Rightarrow> stmt list \<Rightarrow> visitor \<Rightarrow> error + visitor"
  and visit_child :: "bool \<Rightarrow> child \<Rightarrow> visitor \<Rightarrow> error + visitor"
  and visit_children :: "bool \<Rightarrow> child list \<Rightarrow> visitor \<Rightarrow> error + visitor" where
  "visit_stmt py38 (FunctionDef args body decorator_list rets l c) v =
     bind (visit_stmts py38 body (visit_expr args (push v))) (\<lambda>v1.
     bind (check_function py38 body (visit_expr_opt rets (visit_exprs decorator_list v1))) pop)"
| "visit_stmt py38 (AsyncFunctionDef args body decorator_list rets l c) v =
     bind (visit_stmts py38 body (visit_expr args (push v))) (\<lambda>v1.
     bind (check_function py38 body (visit_expr_opt rets (visit_exprs decorator_list v1))) pop)"
| "visit_stmt py38 (Return val l c) v =
     (case stack v of
        [] \<Rightarrow> Inl EmptyStack
      | sc # rest \<Rightarrow>
          Inr (visit_expr_opt val (v\<lparr>stack := sc\<lparr>returns := returns sc @ [Return val l c]\<rparr> # rest\<rparr>)))"
| "visit_stmt py38 (Assign targets val l c) v =
     (if stack v = [] then Inr v
      else
        (case targets of
           [] \<Rightarrow> Inl NoTargets
         | target # others \<Rightarrow>
             if is_Tuple target \<and> \<not> is_Tuple val then Inr (visit_assign_value val v)
             else visit_assign_target py38 target (visit_assign_value val v)))"
| "visit_stmt py38 (For target iter body orelse l c e) v =
     bind (visit_stmts py38 body (visit_expr iter (visit_expr target (enter_loop py38 l e v)))) (\<lambda>v1.
     bind (visit_stmts py38 orelse v1) (\<lambda>v2. Inr (leave_loop py38 v2)))"
| "visit_stmt py38 (AsyncFor target iter body orelse l c e) v =
     bind (visit_stmts py38 body (visit_expr iter (visit_expr target (enter_loop py38 l e v)))) (\<lambda>v1.
     bind (visit_stmts py38 orelse v1) (\<lambda>v2. Inr (leave_loop py38 v2)))"
| "visit_stmt py38 (While test body orelse l c e) v =
     bind (visit_stmts py38 body (visit_expr test (enter_loop py38 l e v))) (\<lambda>v1.
     bind (visit_stmts py38 orelse v1) (\<lambda>v2. Inr (leave_loop py38 v2)))"
| "visit_stmt py38 (IfStmt test body orelse l c) v =
     bind (visit_stmts py38 body (visit_expr test v)) (visit_stmts py38 orelse)"
| "visit_stmt py38 (With items body l c) v = visit_stmts py38 body (visit_exprs items v)"
| "visit_stmt py38 (AsyncWith items body l c) v = visit_stmts py38 body (visit_exprs items v)"
| "visit_stmt py38 (Raise exc cause l c) v = Inr (visit_expr_opt cause (visit_expr_opt exc v))"
| "visit_stmt py38 (Try body handlers orelse finalbody l c e) v =
     bind (visit_stmts py38 body (enter_try py38 l e v)) (\<lambda>v1.
     bind (visit_stmts py38 handlers v1) (\<lambda>v2.
     bind (visit_stmts py38 orelse v2) (visit_stmts py38 finalbody)))"
| "visit_stmt py38 (Assert test msg l c) v = Inr (visit_expr_opt msg (visit_expr test v))"
| "visit_stmt py38 (OtherStmt children l c) v = visit_children py38 children v"
| "visit_stmts py38 [] v = Inr v"
| "visit_stmts py38 (s # ss) v = bind (visit_stmt py38 s v) (visit_stmts py38 ss)"
| "visit_child py38 (ChildExpr e) v = Inr (visit_expr e v)"
| "visit_child py38 (ChildStmt s) v = visit_stmt py38 s v"
| "visit_children py38 [] v = Inr v"
| "visit_children py38 (n # ns) v = bind (visit_child py38 n v) (visit_children py38 ns)"

text \<open>The analysis of a module: the walk of its statements by a fresh visitor, and the findings.\<close>

definition run :: "bool \<Rightarrow> stmt list \<Rightarrow> error + diagnostic list" where
  "run py38 tree = bind (visit_stmts py38 tree initial) (\<lambda>v. Inr (errors v))"

section \<open>Notions used to state the properties\<close>

text \<open>
  These definitions are not part of the program. \<open>reads\<close> lists the names that the walk
  of an expression meets, in order; \<open>record_reads\<close> appends them to a \<open>refs\<close> dictionary;
  \<open>with_refs\<close> changes \<open>refs\<close> of the top scope, if there is one. \<open>emitted v v'\<close> is what
  was appended to the findings between two states.
\<close>

fun reads :: "expr \<Rightarrow> (string \<times> int) list"
  and reads_list :: "expr list \<Rightarrow> (string \<times> int) list" where
  "reads (Name name l c) = [(name, l)]"
| "reads (Constant k) = []"
| "reads (Tuple elts) = reads_list elts"
| "reads (OtherExpr children) = reads_list children"
| "reads_list [] = []"
| "reads_list (e # es) = reads e @ reads_list es"

fun child_reads :: "expr \<Rightarrow> (string \<times> int) list" where
  "child_reads (Name name l c) = []"
| "child_reads (Constant k) = []"
| "child_reads (Tuple elts) = reads_list elts"
| "child_reads (OtherExpr children) = reads_list children"

fun reads_opt :: "expr option \<Rightarrow> (string \<times> int) list" where
  "reads_opt None = []"
| "reads_opt (Some e) = reads e"

fun record_reads :: "(string \<times> int) list \<Rightarrow> NameToLines \<Rightarrow> NameToLines" where
  "record_reads [] d = d"
| "record_reads ((name, l) # rs) d = record_reads rs (append_line d name l)"

definition with_refs :: "(NameToLines \<Rightarrow> NameToLines) \<Rightarrow> visitor \<Rightarrow> visitor" where
  "with_refs f v =
     (case stack v of [] \<Rightarrow> v | sc # rest \<Rightarrow> v\<lparr>stack := sc\<lparr>refs := f (refs sc)\<rparr> # rest\<rparr>)"

definition emitted :: "visitor \<Rightarrow> visitor \<Rightarrow> diagnostic list" where
  "emitted v v' = drop (length (errors v)) (errors v')"

text \<open>
  \<open>add_errors\<close> appends findings to a state; \<open>finding\<close> is the finding that
  \<^verbatim>\<open>error_from_node\<close> builds for a statement; \<open>of_kind\<close> keeps the findings of one class.
\<close>

definition add_errors :: "diagnostic list \<Rightarrow> visitor \<Rightarrow> visitor" where
  "add_errors D v = v\<lparr>errors := errors v @ D\<rparr>"

definition finding :: "error_kind \<Rightarrow> stmt \<Rightarrow> diagnostic" where
  "finding k node = Diagnostic k (lineno node) (col_offset node)"

definition of_kind :: "error_kind \<Rightarrow> diagnostic list \<Rightarrow> diagnostic list" where
  "of_kind k D = filter (\<lambda>d. kind d = k) D"

text \<open>
  The checks as lists of findings. \<open>flagged\<close> is the decision of
  \<^verbatim>\<open>_check_unnecessary_assign\<close> for a name and a line in a scope; \<open>assign_finding\<close> is what
  the check adds for one recorded return, \<open>assign_findings\<close> for all of them;
  \<open>implicit_return_findings\<close> is what \<^verbatim>\<open>_check_implicit_return\<close> adds for a statement. The
  lemmas \<open>check_unnecessary_assigns_eq\<close>, \<open>check_implicit_return_eq\<close> and
  \<open>check_function_eq\<close> below prove that the checks of the program add exactly these.
\<close>

definition flagged :: "bool \<Rightarrow> scope \<Rightarrow> string \<Rightarrow> int \<Rightarrow> bool" where
  "flagged py38 sc name l =
     (case assigns sc name of
        None \<Rightarrow> False
      | Some assign_lines \<Rightarrow>
          (case refs sc name of
             None \<Rightarrow> True
           | Some ref_lines \<Rightarrow>
               \<not> has_refs_before_next_assign assign_lines ref_lines l
               \<and> \<not> (py38 \<and> has_refs_or_assigns_within_try_or_loop sc ref_lines assign_lines)))"

definition assign_finding :: "bool \<Rightarrow> scope \<Rightarrow> stmt \<Rightarrow> diagnostic list" where
  "assign_finding py38 sc node =
     (case return_value node of
        Some (Name name l c) \<Rightarrow>
          if flagged py38 sc name l then [Diagnostic UnnecessaryAssign l c] else []
      | _ \<Rightarrow> [])"

definition assign_findings :: "bool \<Rightarrow> scope \<Rightarrow> stmt list \<Rightarrow> diagnostic list" where
  "assign_findings py38 sc nodes = concat (map (assign_finding py38 sc) nodes)"

function (sequential) implicit_return_findings :: "stmt \<Rightarrow> error + diagnostic list" where
  "implicit_return_findings (IfStmt test body orelse l c) =
     (if body = [] \<or> orelse = [] then Inr [finding ImplicitReturn (IfStmt test body orelse l c)]
      else bind (implicit_return_findings (last body)) (\<lambda>D.
           bind (implicit_return_findings (last orelse)) (\<lambda>D'. Inr (D @ D'))))"
| "implicit_return_findings (For target iter body orelse l c e) =
     (if orelse \<noteq> [] then implicit_return_findings (last orelse)
      else Inr [finding ImplicitReturn (For target iter body orelse l c e)])"
| "implicit_return_findings (AsyncFor target iter body orelse l c e) =
     (if orelse \<noteq> [] then implicit_return_findings (last orelse)
      else Inr [finding ImplicitReturn (AsyncFor target iter body orelse l c e)])"
| "implicit_return_findings (With items body l c) =
     (if body = [] then Inl EmptyBody else implicit_return_findings (last body))"
| "implicit_return_findings (AsyncWith items body l c) =
     (if body = [] then Inl EmptyBody else implicit_return_findings (last body))"
| "implicit_return_findings (Assert test msg l c) =
     (if is_false test then Inr [] else Inr [finding ImplicitReturn (Assert test msg l c)])"
| "implicit_return_findings (Return val l c) = Inr []"
| "implicit_return_findings (Raise exc cause l c) = Inr []"
| "implicit_return_findings (While test body orelse l c e) = Inr []"
| "implicit_return_findings (Try body handlers orelse finalbody l c e) = Inr []"
| "implicit_return_findings last_node = Inr [finding ImplicitReturn last_node]"
  by pat_completeness auto

termination
proof (relation "measure size")
qed (auto simp: le_imp_less_Suc size_last_le trans_le_add1 trans_le_add2)

text \<open>
  \<^verbatim>\<open>_visit_with_stack\<close> up to the call of \<^verbatim>\<open>_check_function\<close>: the push and the
  \<^verbatim>\<open>generic_visit\<close> of the function definition. Its result is the state that the checks
  read.
\<close>

definition walk_function ::
  "bool \<Rightarrow> expr \<Rightarrow> stmt list \<Rightarrow> expr list \<Rightarrow> expr option \<Rightarrow> visitor \<Rightarrow> error + visitor" where
  "walk_function py38 args body decorator_list rets v =
     bind (visit_stmts py38 body (visit_expr args (push v))) (\<lambda>v1.
       Inr (visit_expr_opt rets (visit_exprs decorator_list v1)))"

text \<open>
  Two facts that hold of every scope during a walk: before Python 3.8 no span is stored,
  and the name that a recorded return returns has its line among the recorded reads.
  \<open>steps py38 v v'\<close> relates a state to a later one: the findings are extended, the
  stack below the top scope is the same, and the top scope keeps the two facts.
\<close>

definition scope_ok :: "bool \<Rightarrow> scope \<Rightarrow> bool" where
  "scope_ok py38 sc \<longleftrightarrow>
     (\<not> py38 \<longrightarrow> tries sc = [] \<and> loops sc = []) \<and>
     (\<forall>n \<in> set (returns sc). \<forall>name l c.
        return_value n = Some (Name name l c) \<longrightarrow> (\<exists>ls. refs sc name = Some ls \<and> l \<in> set ls))"

definition steps :: "bool \<Rightarrow> visitor \<Rightarrow> visitor \<Rightarrow> bool" where
  "steps py38 v v' \<longleftrightarrow>
     prefix (errors v) (errors v') \<and>
     (stack v = [] \<longrightarrow> stack v' = []) \<and>
     (\<forall>sc rest. stack v = sc # rest \<longrightarrow>
        (\<exists>sc'. stack v' = sc' # rest \<and> (scope_ok py38 sc \<longrightarrow> scope_ok py38 sc')))"


text \<open>
  \<open>enclosed inside node\<close>: every \<^verbatim>\<open>Return\<close> below the node lies inside a function
  definition, where \<open>inside\<close> says whether the node itself does.
\<close>

fun enclosed :: "bool \<Rightarrow> stmt \<Rightarrow> bool"
  and enclosed_list :: "bool \<Rightarrow> stmt list \<Rightarrow> bool"
  and enclosed_child :: "bool \<Rightarrow> child \<Rightarrow> bool"
  and enclosed_children :: "bool \<Rightarrow> child list \<Rightarrow> bool" where
  "enclosed inside (FunctionDef args body decorator_list rets l c) = enclosed_list True body"
| "enclosed inside (AsyncFunctionDef args body decorator_list rets l c) = enclosed_list True body"
| "enclosed inside (Return val l c) = inside"
| "enclosed inside (Assign targets val l c) = True"
| "enclosed inside (For target iter body orelse l c e) =
     (enclosed_list inside body \<and> enclosed_list inside orelse)"
| "enclosed inside (AsyncFor target iter body orelse l c e) =
     (enclosed_list inside body \<and> enclosed_list inside orelse)"
| "enclosed inside (While test body orelse l c e) =
     (enclosed_list inside body \<and> enclosed_list inside orelse)"
| "enclosed inside (IfStmt test body orelse l c) =
     (enclosed_list inside body \<and> enclosed_list inside orelse)"
| "enclosed inside (With items body l c) = enclosed_list inside body"
| "enclosed inside (AsyncWith items body l c) = enclosed_list inside body"
| "enclosed inside (Raise exc cause l c) = True"
| "enclosed inside (Try body handlers orelse finalbody l c e) =
     (enclosed_list inside body \<and> enclosed_list inside handlers
      \<and> enclosed_list inside orelse \<and> enclosed_list inside finalbody)"
| "enclosed inside (Assert test msg l c) = True"
| "enclosed inside (OtherStmt children l c) = enclosed_children inside children"
| "enclosed_list inside [] = True"
| "enclosed_list inside (s # ss) = (enclosed inside s \<and> enclosed_list inside ss)"
| "enclosed_child inside (ChildExpr e) = True"
| "enclosed_child inside (ChildStmt s) = enclosed inside s"
| "enclosed_children inside [] = True"
| "enclosed_children inside (n # ns) = (enclosed_child inside n \<and> enclosed_children inside ns)"

text \<open>The lines recorded for a name in \<open>assigns\<close> or \<open>refs\<close>: none when the key is absent.\<close>

definition recorded :: "NameToLines \<Rightarrow> string \<Rightarrow> int list" where
  "recorded d name = (case d name of None \<Rightarrow> [] | Some ls \<Rightarrow> ls)"





section \<open>Examples\<close>

text \<open>
  \<^verbatim>\<open>def f():\<close> / \<^verbatim>\<open>    x = 1\<close> / \<^verbatim>\<open>    return x\<close>
\<close>

definition example_assign_return :: stmt where
  "example_assign_return =
     FunctionDef (OtherExpr [])
       [Assign [Name ''x'' 2 4] (Constant OtherLit) 2 4,
        Return (Some (Name ''x'' 3 11)) 3 4]
       [] None 1 0"

text \<open>Its body, and the visitor after the walk of the function.\<close>

definition assign_return_body :: "stmt list" where
  "assign_return_body =
     [Assign [Name ''x'' 2 4] (Constant OtherLit) 2 4,
      Return (Some (Name ''x'' 3 11)) 3 4]"

definition assign_return_walked :: visitor where
  "assign_return_walked =
     \<lparr>stack = [\<lparr>assigns = [''x'' \<mapsto> [2]], refs = [''x'' \<mapsto> [3]], tries = [], loops = [],
                returns = [Return (Some (Name ''x'' 3 11)) 3 4]\<rparr>],
      errors = [], loop_count = 0\<rparr>"

text \<open>
  \<^verbatim>\<open>def f():\<close> / \<^verbatim>\<open>    try:\<close> / \<^verbatim>\<open>        x = g()\<close> / \<^verbatim>\<open>    except E:\<close> /
  \<^verbatim>\<open>        pass\<close> / \<^verbatim>\<open>    return x\<close>: the assignment of line 3 lies in the \<^verbatim>\<open>try\<close> of lines 2 to 5.
\<close>

definition try_assign_body :: "stmt list" where
  "try_assign_body =
     [Try [Assign [Name ''x'' 3 8] (OtherExpr [Name ''g'' 3 12]) 3 8]
        [OtherStmt [ChildExpr (Name ''E'' 4 11), ChildStmt (OtherStmt [] 5 8)] 4 4]
        [] [] 2 4 (Some 5),
      Return (Some (Name ''x'' 6 11)) 6 4]"

definition try_assign_walked :: visitor where
  "try_assign_walked =
     \<lparr>stack = [\<lparr>assigns = [''x'' \<mapsto> [3]],
                refs = [''g'' \<mapsto> [3], ''E'' \<mapsto> [4], ''x'' \<mapsto> [6]],
                tries = [(2, 5)], loops = [],
                returns = [Return (Some (Name ''x'' 6 11)) 6 4]\<rparr>],
      errors = [], loop_count = 0\<rparr>"

text \<open>
  \<^verbatim>\<open>def f():\<close> / \<^verbatim>\<open>    return None\<close>
\<close>

definition example_return_none :: stmt where
  "example_return_none = FunctionDef (OtherExpr []) [Return (Some (Constant NoneLit)) 2 4] [] None 1 0"

text \<open>
  \<^verbatim>\<open>def f():\<close> / \<^verbatim>\<open>    return None\<close> / \<^verbatim>\<open>    return None\<close>: the body, and the visitor
  after the walk of the function.
\<close>

definition two_none_body :: "stmt list" where
  "two_none_body = [Return (Some (Constant NoneLit)) 2 4, Return (Some (Constant NoneLit)) 3 4]"

definition two_none_walked :: visitor where
  "two_none_walked =
     \<lparr>stack = [\<lparr>assigns = Map.empty, refs = Map.empty, tries = [], loops = [],
                returns = two_none_body\<rparr>],
      errors = [], loop_count = 0\<rparr>"

text \<open>
  \<^verbatim>\<open>def f():\<close> / \<^verbatim>\<open>    if c: return 1\<close> / \<^verbatim>\<open>    return\<close>
\<close>

definition mixed_body :: "stmt list" where
  "mixed_body =
     [IfStmt (Name ''c'' 2 7) [Return (Some (Constant OtherLit)) 2 10] [] 2 4,
      Return None 3 4]"

definition mixed_walked :: visitor where
  "mixed_walked =
     \<lparr>stack = [\<lparr>assigns = Map.empty, refs = [''c'' \<mapsto> [2]], tries = [], loops = [],
                returns = [Return (Some (Constant OtherLit)) 2 10, Return None 3 4]\<rparr>],
      errors = [], loop_count = 0\<rparr>"

text \<open>
  \<^verbatim>\<open>def f():\<close> / \<^verbatim>\<open>    if c:\<close> / \<^verbatim>\<open>        return 1\<close>, and the same with
  \<^verbatim>\<open>    else:\<close> / \<^verbatim>\<open>        return 2\<close>.
\<close>

definition if_no_else_body :: "stmt list" where
  "if_no_else_body = [IfStmt (Name ''c'' 2 7) [Return (Some (Constant OtherLit)) 3 8] [] 2 4]"

definition if_no_else_walked :: visitor where
  "if_no_else_walked =
     \<lparr>stack = [\<lparr>assigns = Map.empty, refs = [''c'' \<mapsto> [2]], tries = [], loops = [],
                returns = [Return (Some (Constant OtherLit)) 3 8]\<rparr>],
      errors = [], loop_count = 0\<rparr>"

definition if_else_body :: "stmt list" where
  "if_else_body =
     [IfStmt (Name ''c'' 2 7) [Return (Some (Constant OtherLit)) 3 8]
        [Return (Some (Constant OtherLit)) 5 8] 2 4]"

definition if_else_walked :: visitor where
  "if_else_walked =
     \<lparr>stack = [\<lparr>assigns = Map.empty, refs = [''c'' \<mapsto> [2]], tries = [], loops = [],
                returns = [Return (Some (Constant OtherLit)) 3 8, Return (Some (Constant OtherLit)) 5 8]\<rparr>],
      errors = [], loop_count = 0\<rparr>"

text \<open>A module that is the one statement \<^verbatim>\<open>return\<close>.\<close>

definition module_return :: "stmt list" where
  "module_return = [Return None 1 0]"





text \<open>
  \<^verbatim>\<open>def f():\<close> / \<^verbatim>\<open>    x, y = t\<close> / \<^verbatim>\<open>    return x\<close>: the assignment unpacks a value that
  is no tuple literal, and \<^verbatim>\<open>visit_Assign\<close> records no binding for it.
\<close>

definition unpack_body :: "stmt list" where
  "unpack_body =
     [Assign [Tuple [Name ''x'' 2 4, Name ''y'' 2 7]] (Name ''t'' 2 11) 2 4,
      Return (Some (Name ''x'' 3 11)) 3 4]"

definition unpack_walked :: visitor where
  "unpack_walked =
     \<lparr>stack = [\<lparr>assigns = Map.empty, refs = [''t'' \<mapsto> [2], ''x'' \<mapsto> [3]],
                tries = [], loops = [],
                returns = [Return (Some (Name ''x'' 3 11)) 3 4]\<rparr>],
      errors = [], loop_count = 0\<rparr>"

section \<open>The walk of an expression only records reads\<close>

lemma bind_Inr [simp]: "bind (Inr x) f = f x"
  by (simp add: bind_def)

lemma bind_Inl [simp]: "bind (Inl e) f = Inl e"
  by (simp add: bind_def)

lemma bind_eq_Inr: "bind m f = Inr y \<longleftrightarrow> (\<exists>x. m = Inr x \<and> f x = Inr y)"
  by (cases m) simp_all

lemma record_reads_append: "record_reads (rs @ rs') d = record_reads rs' (record_reads rs d)"
  by (induction rs d rule: record_reads.induct) simp_all

lemma with_refs_comp: "with_refs g (with_refs f v) = with_refs (\<lambda>d. g (f d)) v"
  by (simp add: with_refs_def split: list.splits)

lemma with_refs_id [simp]: "with_refs (\<lambda>d. d) v = v"
  by (simp add: with_refs_def split: list.splits)

lemma with_refs_nil [simp]: "with_refs (record_reads []) v = v"
  by (simp add: with_refs_def split: list.splits)

lemma visit_Name_with_refs: "visit_Name name l v = with_refs (\<lambda>d. append_line d name l) v"
  by (simp add: visit_Name_def with_refs_def)

lemma visit_expr_reads:
  "visit_expr e v = with_refs (record_reads (reads e)) v"
  "visit_exprs es v = with_refs (record_reads (reads_list es)) v"
proof (induction e v and es v rule: visit_expr_visit_exprs.induct)
  case (1 name l c v)
  show ?case by (simp add: visit_Name_with_refs)
next
  case (6 e es v)
  then show ?case by (simp add: with_refs_comp record_reads_append)
qed simp_all

lemma generic_visit_expr_reads:
  "generic_visit_expr e v = with_refs (record_reads (child_reads e)) v"
  by (cases e) (simp_all add: visit_expr_reads)

lemma visit_expr_opt_reads:
  "visit_expr_opt e v = with_refs (record_reads (reads_opt e)) v"
  by (cases e) (simp_all add: visit_expr_reads)

lemma with_refs_fields [simp]:
  "errors (with_refs f v) = errors v"
  "loop_count (with_refs f v) = loop_count v"
  "stack v = [] \<Longrightarrow> with_refs f v = v"
  "stack v = sc # rest \<Longrightarrow> stack (with_refs f v) = sc\<lparr>refs := f (refs sc)\<rparr> # rest"
  by (simp_all add: with_refs_def split: list.splits)

lemma with_refs_stack_update [simp]:
  "with_refs f (v\<lparr>stack := sc # rest\<rparr>) = v\<lparr>stack := sc\<lparr>refs := f (refs sc)\<rparr> # rest\<rparr>"
  by (simp add: with_refs_def)

section \<open>The checks add the findings listed above\<close>

lemma add_errors_fields [simp]:
  "stack (add_errors D v) = stack v"
  "errors (add_errors D v) = errors v @ D"
  "loop_count (add_errors D v) = loop_count v"
  by (simp_all add: add_errors_def)

lemma add_errors_nil [simp]: "add_errors [] v = v"
  by (simp add: add_errors_def)

lemma add_errors_add_errors [simp]: "add_errors D' (add_errors D v) = add_errors (D @ D') v"
  by (simp add: add_errors_def)

lemma emitted_add_errors [simp]: "emitted v (add_errors D v) = D"
  by (simp add: emitted_def)

lemma error_at_add_errors: "error_at k l c v = add_errors [Diagnostic k l c] v"
  by (simp add: error_at_def add_errors_def)

lemma error_from_node_add_errors: "error_from_node k node v = add_errors [finding k node] v"
  by (simp add: error_from_node_def error_at_add_errors finding_def)

lemma implicit_return_value_loop_eq:
  "implicit_return_value_loop rs v =
     add_errors (map (finding ImplicitReturnValue) (filter (\<lambda>r. return_value r = None) rs)) v"
  by (induction rs arbitrary: v) (simp_all add: error_from_node_add_errors)

lemma unnecessary_return_none_loop_eq:
  "unnecessary_return_none_loop rs v =
     add_errors (map (finding UnnecessaryReturnNone) (filter (\<lambda>r. is_none (return_value r)) rs)) v"
  by (induction rs arbitrary: v) (simp_all add: error_from_node_add_errors)

lemma check_implicit_return_eq:
  "check_implicit_return node v =
     bind (implicit_return_findings node) (\<lambda>D. Inr (add_errors D v))"
proof (induction node v rule: check_implicit_return.induct)
  case (1 test body orelse l c v)
  show ?case
  proof (cases "body = [] \<or> orelse = []")
    case True
    then show ?thesis by (auto simp: error_from_node_add_errors)
  next
    case False
    show ?thesis
    proof (cases "implicit_return_findings (last body)")
      case (Inl err)
      then show ?thesis using False "1.IH"(1)[OF False] by simp
    next
      case (Inr D)
      then show ?thesis
        using False "1.IH"(1)[OF False] "1.IH"(2)[OF False, of "add_errors D v"]
        by (cases "implicit_return_findings (last orelse)") simp_all
    qed
  qed
qed (simp_all add: error_from_node_add_errors)

lemma kind_implicit_return_findings:
  "implicit_return_findings node = Inr D \<Longrightarrow> d \<in> set D \<Longrightarrow> kind d = ImplicitReturn"
proof (induction node arbitrary: D rule: implicit_return_findings.induct)
  case (1 test body orelse l c)
  show ?case
  proof (cases "body = [] \<or> orelse = []")
    case True
    then show ?thesis using "1.prems" by (auto simp: finding_def)
  next
    case False
    with "1.prems"(1) obtain D1 D2 where
      D1: "implicit_return_findings (last body) = Inr D1"
      and D2: "implicit_return_findings (last orelse) = Inr D2"
      and D: "D = D1 @ D2"
      by (auto simp: bind_eq_Inr)
    from "1.prems"(2) D have "d \<in> set D1 \<or> d \<in> set D2" by simp
    then show ?thesis
      using "1.IH"(1)[OF False D1] "1.IH"(2)[OF False D2] by blast
  qed
qed (auto simp: finding_def split: if_splits)

lemma check_unnecessary_assign_flagged:
  "stack v = sc # rest \<Longrightarrow>
     check_unnecessary_assign py38 (Name name l c) v =
       Inr (if flagged py38 sc name l then add_errors [Diagnostic UnnecessaryAssign l c] v else v)"
  by (simp add: flagged_def error_at_add_errors split: option.splits)

lemma check_unnecessary_assign_finding:
  assumes "stack v = sc # rest" and "return_value node = Some e"
  shows "check_unnecessary_assign py38 e v = Inr (add_errors (assign_finding py38 sc node) v)"
proof (cases e)
  case (Name name l c)
  from check_unnecessary_assign_flagged[OF assms(1)] show ?thesis
    unfolding Name using assms(2) Name
    by (simp add: assign_finding_def del: check_unnecessary_assign.simps)
qed (simp_all add: assign_finding_def assms(2))

lemma assign_finding_bare: "return_value node = None \<Longrightarrow> assign_finding py38 sc node = []"
  by (simp add: assign_finding_def)

lemma check_unnecessary_assigns_eq:
  "stack v = sc # rest \<Longrightarrow>
     check_unnecessary_assigns py38 ns v = Inr (add_errors (assign_findings py38 sc ns) v)"
proof (induction ns arbitrary: v)
  case Nil
  then show ?case by (simp add: assign_findings_def)
next
  case (Cons n ns)
  show ?case
  proof (cases "return_value n")
    case None
    then show ?thesis using Cons by (simp add: assign_findings_def assign_finding_bare)
  next
    case (Some e)
    have st: "stack (add_errors (assign_finding py38 sc n) v) = sc # rest"
      using Cons.prems by simp
    show ?thesis
      using Some Cons.IH[OF st] check_unnecessary_assign_finding[OF Cons.prems Some, of py38]
      by (simp add: assign_findings_def)
  qed
qed

lemma kind_assign_findings: "d \<in> set (assign_findings py38 sc ns) \<Longrightarrow> kind d = UnnecessaryAssign"
  by (auto simp: assign_findings_def assign_finding_def split: option.splits expr.splits if_splits)

lemma of_kind_append [simp]: "of_kind k (D @ D') = of_kind k D @ of_kind k D'"
  by (simp add: of_kind_def)

lemma kind_finding [simp]: "kind (finding k node) = k"
  by (simp add: finding_def)

lemma result_exists_iff:
  "result_exists rs \<longleftrightarrow> (\<exists>r \<in> set rs. return_value r \<noteq> None \<and> \<not> is_none (return_value r))"
  by (induction rs) auto

text \<open>What \<open>check_function\<close> does, as one list of findings.\<close>

lemma check_function_eq:
  assumes "stack v = sc # rest"
  shows "check_function py38 body v =
     (if returns sc = [] \<or> body = [] \<or> (length body = 1 \<and> is_Return (last body)) then Inr v
      else if \<not> result_exists (returns sc) then
        Inr (add_errors (map (finding UnnecessaryReturnNone)
               (filter (\<lambda>r. is_none (return_value r)) (returns sc))) v)
      else
        bind (implicit_return_findings (last body)) (\<lambda>D.
          Inr (add_errors
            (map (finding ImplicitReturnValue) (filter (\<lambda>r. return_value r = None) (returns sc))
             @ D @ assign_findings py38 sc (returns sc)) v)))"
proof -
  let ?irv = "map (finding ImplicitReturnValue) (filter (\<lambda>r. return_value r = None) (returns sc))"
  have ua: "check_unnecessary_assign_returns py38 (add_errors E v) =
      Inr (add_errors (E @ assign_findings py38 sc (returns sc)) v)" for E
  proof -
    have "stack (add_errors E v) = sc # rest" using assms by simp
    from check_unnecessary_assigns_eq[OF this, of py38 "returns sc"] assms show ?thesis
      by (simp add: check_unnecessary_assign_returns_def)
  qed
  show ?thesis
  proof (cases "implicit_return_findings (last body)")
    case (Inl err)
    then show ?thesis
      using assms
      by (simp add: check_function_def check_unnecessary_return_none_def
          unnecessary_return_none_loop_eq check_implicit_return_value_def
          implicit_return_value_loop_eq check_implicit_return_eq)
  next
    case (Inr D)
    then show ?thesis
      using assms ua[of "?irv @ D"]
      by (simp add: check_function_def check_unnecessary_return_none_def
          unnecessary_return_none_loop_eq check_implicit_return_value_def
          implicit_return_value_loop_eq check_implicit_return_eq)
  qed
qed

lemma emitted_self [simp]: "emitted v v = []"
  by (simp add: emitted_def)

lemma of_kind_map_finding:
  "of_kind k (map (finding k') rs) = (if k = k' then map (finding k') rs else [])"
  by (auto simp: of_kind_def filter_empty_conv)

lemma of_kind_assign_findings:
  "of_kind k (assign_findings py38 sc ns) =
     (if k = UnnecessaryAssign then assign_findings py38 sc ns else [])"
  by (auto simp: of_kind_def filter_empty_conv filter_id_conv dest: kind_assign_findings)

lemma of_kind_implicit_return_findings:
  "implicit_return_findings node = Inr D \<Longrightarrow> of_kind k D = (if k = ImplicitReturn then D else [])"
  by (auto simp: of_kind_def filter_empty_conv filter_id_conv dest: kind_implicit_return_findings)

lemma of_kind_nil [simp]: "of_kind k [] = []"
  by (simp add: of_kind_def)

lemma of_kind_Cons:
  "of_kind k (d # D) = (if kind d = k then d # of_kind k D else of_kind k D)"
  by (simp add: of_kind_def)


section \<open>Facts kept by the walk\<close>

lemma walk_function_single_return:
  assumes "walk_function py38 args [Return val l c] decorator_list rets v = Inr v2"
    and "stack v2 = sc # rest"
  shows "returns sc = [Return val l c]"
  using assms
  by (auto simp: walk_function_def push_def visit_expr_reads visit_expr_opt_reads new_scope_def)

lemma walk_function_no_body:
  assumes "walk_function py38 args [] decorator_list rets v = Inr v2"
    and "stack v2 = sc # rest"
  shows "returns sc = []"
  using assms
  by (auto simp: walk_function_def push_def visit_expr_reads visit_expr_opt_reads new_scope_def)


lemma steps_refl [simp]: "steps py38 v v"
  by (simp add: steps_def)

lemma steps_trans: "steps py38 v v1 \<Longrightarrow> steps py38 v1 v2 \<Longrightarrow> steps py38 v v2"
  unfolding steps_def by (fastforce elim: prefix_order.trans)

lemma append_line_grows:
  "d name = Some ls \<Longrightarrow> \<exists>ls'. append_line d name' l name = Some (ls @ ls')"
  by (auto simp: append_line_def)

lemma record_reads_grows:
  "d name = Some ls \<Longrightarrow> \<exists>ls'. record_reads rs d name = Some (ls @ ls')"
proof (induction rs d arbitrary: ls rule: record_reads.induct)
  case (1 d)
  then show ?case by simp
next
  case (2 name' l rs d)
  from append_line_grows[of d name ls name' l] "2.prems" obtain ls1 where
    "append_line d name' l name = Some (ls @ ls1)" by blast
  from "2.IH"[of "ls @ ls1"] this show ?case by auto
qed

lemma scope_ok_record_reads:
  "scope_ok py38 sc \<Longrightarrow> scope_ok py38 (sc\<lparr>refs := record_reads rs (refs sc)\<rparr>)"
proof -
  assume ok: "scope_ok py38 sc"
  have "\<exists>ls. record_reads rs (refs sc) name = Some ls \<and> l \<in> set ls"
    if "n \<in> set (returns sc)" "return_value n = Some (Name name l c)" for n name l c
  proof -
    from ok that obtain ls where ls: "refs sc name = Some ls" "l \<in> set ls"
      unfolding scope_ok_def by blast
    from record_reads_grows[of "refs sc" name ls rs] ls(1) obtain ls' where
      "record_reads rs (refs sc) name = Some (ls @ ls')" by blast
    with ls(2) show ?thesis by simp
  qed
  with ok show ?thesis unfolding scope_ok_def by simp
qed

lemma steps_with_refs: "steps py38 v (with_refs (record_reads rs) v)"
  by (auto simp: steps_def with_refs_def scope_ok_record_reads split: list.splits)

lemma steps_visit_expr:
  "steps py38 v (visit_expr e v)" "steps py38 v (visit_exprs es v)"
  "steps py38 v (visit_expr_opt eo v)" "steps py38 v (generic_visit_expr e v)"
  by (simp_all add: visit_expr_reads visit_expr_opt_reads generic_visit_expr_reads steps_with_refs)

lemma steps_visit_Name: "steps py38 v (visit_Name name l v)"
  using steps_visit_expr(1)[of py38 v "Name name l 0"] by simp

lemma steps_visit_assign_value: "steps py38 v (visit_assign_value val v)"
  by (cases val) (auto intro: steps_trans steps_visit_Name steps_visit_expr)

lemma steps_enter_loop: "steps py38 v (enter_loop py38 l e v)"
  by (auto simp: steps_def enter_loop_def scope_ok_def split: list.splits option.splits)

lemma steps_leave_loop: "steps py38 v (leave_loop py38 v)"
  by (auto simp: steps_def leave_loop_def)

lemma steps_enter_try: "steps py38 v (enter_try py38 l e v)"
  by (auto simp: steps_def enter_try_def scope_ok_def split: list.splits option.splits)

lemma steps_visit_assign_target:
  "visit_assign_target py38 e v = Inr v' \<Longrightarrow> steps py38 v v'"
  "visit_assign_targets py38 es v = Inr v' \<Longrightarrow> steps py38 v v'"
proof (induction py38 e v and py38 es v arbitrary: v' and v'
    rule: visit_assign_target_visit_assign_targets.induct)
  case (2 py38 name l c v)
  then show ?case
    by (auto simp: steps_def scope_ok_def split: if_splits list.splits)
next
  case (6 py38 n ns v)
  then show ?case by (auto simp: bind_eq_Inr intro: steps_trans)
qed (auto simp: steps_visit_expr)

lemma steps_Return:
  assumes "stack v = sc # rest"
  shows "steps py38 v (visit_expr_opt val (v\<lparr>stack := sc\<lparr>returns := returns sc @ [Return val l c]\<rparr> # rest\<rparr>))"
proof -
  have ok: "scope_ok py38 (sc\<lparr>returns := returns sc @ [Return val l c],
      refs := record_reads (reads_opt val) (refs sc)\<rparr>)" if "scope_ok py38 sc"
  proof -
    have new: "\<exists>ls. record_reads (reads_opt val) (refs sc) name = Some ls \<and> l' \<in> set ls"
      if "val = Some (Name name l' c')" for name l' c'
      using that by (simp add: append_line_def split: option.splits)
    from scope_ok_record_reads[OF \<open>scope_ok py38 sc\<close>, of "reads_opt val"] new show ?thesis
      unfolding scope_ok_def by auto
  qed
  show ?thesis
    using assms ok by (simp add: steps_def visit_expr_opt_reads)
qed

lemma check_function_adds:
  assumes "check_function py38 body v = Inr v'"
  shows "\<exists>D. v' = add_errors D v"
proof (cases "stack v")
  case Nil
  with assms show ?thesis by (simp add: check_function_def)
next
  case (Cons sc rest)
  from assms show ?thesis
    unfolding check_function_eq[OF Cons]
    by (auto simp: bind_eq_Inr split: if_splits intro: exI[of _ "[]"])
qed

lemma steps_stack:
  "steps py38 v v' \<Longrightarrow> stack v = sc # rest \<Longrightarrow> \<exists>sc'. stack v' = sc' # rest"
  by (auto simp: steps_def)

lemma steps_function:
  assumes "steps py38 (visit_expr args (push v)) v1"
    and "check_function py38 body (visit_expr_opt rets (visit_exprs decorator_list v1)) = Inr v3"
    and "pop v3 = Inr v'"
  shows "steps py38 v v'" and "stack v' = stack v"
proof -
  let ?v2 = "visit_expr_opt rets (visit_exprs decorator_list v1)"
  have s0: "steps py38 (push v) (visit_expr args (push v))" by (rule steps_visit_expr)
  have s2: "steps py38 (push v) ?v2"
    using s0 assms(1) steps_visit_expr(2)[of py38 v1 decorator_list]
      steps_visit_expr(3)[of py38 "visit_exprs decorator_list v1" rets]
    by (blast intro: steps_trans)
  have "stack (push v) = new_scope # stack v" by (simp add: push_def)
  from steps_stack[OF s2 this] obtain sc2 where sc2: "stack ?v2 = sc2 # stack v" by blast
  from check_function_adds[OF assms(2)] obtain D where D: "v3 = add_errors D ?v2" by blast
  have v': "v' = v3\<lparr>stack := stack v\<rparr>"
    using assms(3) D sc2 by (auto simp: pop_def)
  show "stack v' = stack v" using v' by simp
  have "prefix (errors (push v)) (errors ?v2)" using s2 by (simp add: steps_def)
  then have "prefix (errors v) (errors v')"
    using v' D by (simp add: push_def)
  then show "steps py38 v v'"
    using \<open>stack v' = stack v\<close> by (auto simp: steps_def)
qed

lemma visit_steps:
  "visit_stmt py38 s v = Inr v' \<Longrightarrow> steps py38 v v'"
  "visit_stmts py38 ss v = Inr v' \<Longrightarrow> steps py38 v v'"
  "visit_child py38 ch v = Inr v' \<Longrightarrow> steps py38 v v'"
  "visit_children py38 chs v = Inr v' \<Longrightarrow> steps py38 v v'"
proof (induction py38 s v and py38 ss v and py38 ch v and py38 chs v
    arbitrary: v' and v' and v' and v'
    rule: visit_stmt_visit_stmts_visit_child_visit_children.induct)
  case (1 py38 args body decorator_list rets l c v)
  from "1.prems" obtain v1 v3 where
    "visit_stmts py38 body (visit_expr args (push v)) = Inr v1"
    "check_function py38 body (visit_expr_opt rets (visit_exprs decorator_list v1)) = Inr v3"
    "pop v3 = Inr v'"
    by (auto simp: bind_eq_Inr)
  with "1.IH" show ?case by (blast intro: steps_function)
next
  case (2 py38 args body decorator_list rets l c v)
  from "2.prems" obtain v1 v3 where
    "visit_stmts py38 body (visit_expr args (push v)) = Inr v1"
    "check_function py38 body (visit_expr_opt rets (visit_exprs decorator_list v1)) = Inr v3"
    "pop v3 = Inr v'"
    by (auto simp: bind_eq_Inr)
  with "2.IH" show ?case by (blast intro: steps_function)
next
  case (3 py38 val l c v)
  then show ?case by (auto split: list.splits intro: steps_Return)
next
  case (4 py38 targets val l c v)
  then show ?case
    by (auto split: if_splits list.splits
        intro: steps_visit_assign_value steps_trans[OF steps_visit_assign_value steps_visit_assign_target(1)])
next
  case (5 py38 target iter body orelse l c e v)
  let ?v0 = "visit_expr iter (visit_expr target (enter_loop py38 l e v))"
  from "5.prems" obtain v1 v2 where
    a: "visit_stmts py38 body ?v0 = Inr v1" and b: "visit_stmts py38 orelse v1 = Inr v2"
    and c: "v' = leave_loop py38 v2"
    by (auto simp: bind_eq_Inr)
  have "steps py38 v ?v0"
    by (blast intro: steps_trans steps_enter_loop steps_visit_expr)
  with "5.IH"(1)[OF a] "5.IH"(2)[OF b] c show ?case
    by (blast intro: steps_trans steps_leave_loop)
next
  case (6 py38 target iter body orelse l c e v)
  let ?v0 = "visit_expr iter (visit_expr target (enter_loop py38 l e v))"
  from "6.prems" obtain v1 v2 where
    a: "visit_stmts py38 body ?v0 = Inr v1" and b: "visit_stmts py38 orelse v1 = Inr v2"
    and c: "v' = leave_loop py38 v2"
    by (auto simp: bind_eq_Inr)
  have "steps py38 v ?v0"
    by (blast intro: steps_trans steps_enter_loop steps_visit_expr)
  with "6.IH"(1)[OF a] "6.IH"(2)[OF b] c show ?case
    by (blast intro: steps_trans steps_leave_loop)
next
  case (7 py38 test body orelse l c e v)
  let ?v0 = "visit_expr test (enter_loop py38 l e v)"
  from "7.prems" obtain v1 v2 where
    a: "visit_stmts py38 body ?v0 = Inr v1" and b: "visit_stmts py38 orelse v1 = Inr v2"
    and c: "v' = leave_loop py38 v2"
    by (auto simp: bind_eq_Inr)
  have "steps py38 v ?v0"
    by (blast intro: steps_trans steps_enter_loop steps_visit_expr)
  with "7.IH"(1)[OF a] "7.IH"(2)[OF b] c show ?case
    by (blast intro: steps_trans steps_leave_loop)
next
  case (8 py38 test body orelse l c v)
  from "8.prems" obtain v1 where
    a: "visit_stmts py38 body (visit_expr test v) = Inr v1" and b: "visit_stmts py38 orelse v1 = Inr v'"
    by (auto simp: bind_eq_Inr)
  from "8.IH"(1)[OF a] "8.IH"(2)[OF b] show ?case
    by (blast intro: steps_trans steps_visit_expr)
next
  case (9 py38 items body l c v)
  then show ?case by (auto intro: steps_trans[OF steps_visit_expr(2)])
next
  case (10 py38 items body l c v)
  then show ?case by (auto intro: steps_trans[OF steps_visit_expr(2)])
next
  case (11 py38 exc cause l c v)
  then show ?case by (auto intro: steps_trans steps_visit_expr)
next
  case (12 py38 body handlers orelse finalbody l c e v)
  from "12.prems" obtain v1 v2 v3 where
    a: "visit_stmts py38 body (enter_try py38 l e v) = Inr v1"
    and b: "visit_stmts py38 handlers v1 = Inr v2"
    and c: "visit_stmts py38 orelse v2 = Inr v3"
    and d: "visit_stmts py38 finalbody v3 = Inr v'"
    by (auto simp: bind_eq_Inr)
  from "12.IH"(1)[OF a] "12.IH"(2)[OF b] "12.IH"(3)[OF c] "12.IH"(4)[OF d] show ?case
    by (blast intro: steps_trans steps_enter_try)
next
  case (13 py38 test msg l c v)
  then show ?case by (auto intro: steps_trans steps_visit_expr)
next
  case (16 py38 s ss v)
  then show ?case by (auto simp: bind_eq_Inr intro: steps_trans)
next
  case (20 py38 n ns v)
  then show ?case by (auto simp: bind_eq_Inr intro: steps_trans)
qed (auto simp: steps_visit_expr)

section \<open>Where the walk can fail\<close>

lemma bind_eq_Inl: "bind m f = Inl e \<longleftrightarrow> m = Inl e \<or> (\<exists>x. m = Inr x \<and> f x = Inl e)"
  by (cases m) simp_all

lemma bind_neq_Inl:
  "m \<noteq> Inl e \<Longrightarrow> (\<And>x. m = Inr x \<Longrightarrow> f x \<noteq> Inl e) \<Longrightarrow> bind m f \<noteq> Inl e"
  by (cases m) auto

lemma steps_empty_iff: "steps py38 v v' \<Longrightarrow> stack v' = [] \<longleftrightarrow> stack v = []"
  by (cases "stack v") (auto simp: steps_def)

lemma stack_empty_iff [simp]:
  "stack (visit_expr e v) = [] \<longleftrightarrow> stack v = []"
  "stack (visit_exprs es v) = [] \<longleftrightarrow> stack v = []"
  "stack (visit_expr_opt eo v) = [] \<longleftrightarrow> stack v = []"
  "stack (visit_assign_value val v) = [] \<longleftrightarrow> stack v = []"
  "stack (enter_loop py38 l end_lineno v) = [] \<longleftrightarrow> stack v = []"
  "stack (enter_try py38 l end_lineno v) = [] \<longleftrightarrow> stack v = []"
  "stack (leave_loop py38 v) = [] \<longleftrightarrow> stack v = []"
  using steps_visit_expr(1)[of True v e] steps_visit_expr(2)[of True v es]
    steps_visit_expr(3)[of True v eo] steps_visit_assign_value[of True v val]
    steps_enter_loop[of py38 v l end_lineno] steps_enter_try[of py38 v l end_lineno]
    steps_leave_loop[of py38 v]
  by (simp_all add: steps_empty_iff)

lemma implicit_return_findings_error:
  "implicit_return_findings node = Inl err \<Longrightarrow> err = EmptyBody"
proof (induction node rule: implicit_return_findings.induct)
  case (1 test body orelse l c)
  show ?case
  proof (cases "body = [] \<or> orelse = []")
    case True
    with "1.prems" show ?thesis by auto
  next
    case False
    show ?thesis
    proof (cases "implicit_return_findings (last body)")
      case (Inl e1)
      with False "1.prems" "1.IH"(1) show ?thesis by simp
    next
      case (Inr D)
      with False "1.prems" "1.IH"(2) show ?thesis
        by (cases "implicit_return_findings (last orelse)") auto
    qed
  qed
qed (auto split: if_splits)

lemma check_function_error:
  assumes "stack v \<noteq> []" and "check_function py38 body v = Inl err"
  shows "err = EmptyBody"
proof -
  from assms(1) obtain sc rest where st: "stack v = sc # rest" by (cases "stack v") auto
  from assms(2) show ?thesis
    unfolding check_function_eq[OF st]
    by (cases "implicit_return_findings (last body)")
      (auto split: if_splits dest: implicit_return_findings_error)
qed

lemma visit_assign_target_total:
  "stack v \<noteq> [] \<Longrightarrow> \<exists>v'. visit_assign_target py38 e v = Inr v'"
  "stack v \<noteq> [] \<Longrightarrow> \<exists>v'. visit_assign_targets py38 es v = Inr v'"
proof (induction py38 e v and py38 es v rule: visit_assign_target_visit_assign_targets.induct)
  case (2 py38 name l c v)
  then show ?case by (cases "stack v") auto
next
  case (6 py38 n ns v)
  from "6.IH"(1)[OF "6.prems"] obtain v1 where v1: "visit_assign_target py38 n v = Inr v1"
    by blast
  from steps_visit_assign_target(1)[OF v1] "6.prems" have "stack v1 \<noteq> []"
    by (simp add: steps_empty_iff)
  from "6.IH"(2)[OF this] v1 show ?case by simp
qed auto

lemma function_not_EmptyStack:
  assumes "visit_stmts py38 body (visit_expr args (push v)) \<noteq> Inl EmptyStack"
  shows "bind (visit_stmts py38 body (visit_expr args (push v))) (\<lambda>v1.
           bind (check_function py38 body (visit_expr_opt rets (visit_exprs decorator_list v1))) pop)
         \<noteq> Inl EmptyStack"
proof (rule bind_neq_Inl[OF assms])
  fix v1
  assume v1: "visit_stmts py38 body (visit_expr args (push v)) = Inr v1"
  let ?v2 = "visit_expr_opt rets (visit_exprs decorator_list v1)"
  have ne: "stack ?v2 \<noteq> []"
    using steps_empty_iff[OF visit_steps(2)[OF v1]] by (simp add: push_def)
  show "bind (check_function py38 body ?v2) pop \<noteq> Inl EmptyStack"
  proof (rule bind_neq_Inl)
    show "check_function py38 body ?v2 \<noteq> Inl EmptyStack"
      using check_function_error[OF ne] by fastforce
  next
    fix v3
    assume "check_function py38 body ?v2 = Inr v3"
    from check_function_adds[OF this] ne show "pop v3 \<noteq> Inl EmptyStack"
      by (auto simp: pop_def split: list.splits)
  qed
qed

lemma enclosed_not_EmptyStack:
  "enclosed (stack v \<noteq> []) s \<Longrightarrow> visit_stmt py38 s v \<noteq> Inl EmptyStack"
  "enclosed_list (stack v \<noteq> []) ss \<Longrightarrow> visit_stmts py38 ss v \<noteq> Inl EmptyStack"
  "enclosed_child (stack v \<noteq> []) ch \<Longrightarrow> visit_child py38 ch v \<noteq> Inl EmptyStack"
  "enclosed_children (stack v \<noteq> []) chs \<Longrightarrow> visit_children py38 chs v \<noteq> Inl EmptyStack"
proof (induction py38 s v and py38 ss v and py38 ch v and py38 chs v
    rule: visit_stmt_visit_stmts_visit_child_visit_children.induct)
  case (1 py38 args body decorator_list rets l c v)
  have "stack (visit_expr args (push v)) \<noteq> []" by (simp add: push_def)
  with "1.prems" "1.IH" have "visit_stmts py38 body (visit_expr args (push v)) \<noteq> Inl EmptyStack"
    by simp
  from function_not_EmptyStack[OF this] show ?case by simp
next
  case (2 py38 args body decorator_list rets l c v)
  have "stack (visit_expr args (push v)) \<noteq> []" by (simp add: push_def)
  with "2.prems" "2.IH" have "visit_stmts py38 body (visit_expr args (push v)) \<noteq> Inl EmptyStack"
    by simp
  from function_not_EmptyStack[OF this] show ?case by simp
next
  case (3 py38 val l c v)
  then show ?case by (cases "stack v") auto
next
  case (4 py38 targets val l c v)
  show ?case
  proof (cases "stack v = []")
    case True
    then show ?thesis by simp
  next
    case False
    then have "stack (visit_assign_value val v) \<noteq> []" by simp
    from visit_assign_target_total(1)[OF this, of py38] have
      "visit_assign_target py38 e (visit_assign_value val v) \<noteq> Inl EmptyStack" for e
      by (metis sum.distinct(1))
    with False show ?thesis by (cases targets) auto
  qed
next
  case (5 py38 target iter body orelse l c e v)
  let ?v0 = "visit_expr iter (visit_expr target (enter_loop py38 l e v))"
  have e0: "(stack ?v0 \<noteq> []) = (stack v \<noteq> [])" by simp
  have a: "visit_stmts py38 body ?v0 \<noteq> Inl EmptyStack"
    using "5.IH"(1) "5.prems" e0 by simp
  have b: "visit_stmts py38 orelse v1 \<noteq> Inl EmptyStack" if "visit_stmts py38 body ?v0 = Inr v1" for v1
    using "5.IH"(2)[of v1] "5.prems" e0 steps_empty_iff[OF visit_steps(2)[OF that]] by simp
  show ?case using a b by (auto simp: bind_eq_Inl)
next
  case (6 py38 target iter body orelse l c e v)
  let ?v0 = "visit_expr iter (visit_expr target (enter_loop py38 l e v))"
  have e0: "(stack ?v0 \<noteq> []) = (stack v \<noteq> [])" by simp
  have a: "visit_stmts py38 body ?v0 \<noteq> Inl EmptyStack"
    using "6.IH"(1) "6.prems" e0 by simp
  have b: "visit_stmts py38 orelse v1 \<noteq> Inl EmptyStack" if "visit_stmts py38 body ?v0 = Inr v1" for v1
    using "6.IH"(2)[of v1] "6.prems" e0 steps_empty_iff[OF visit_steps(2)[OF that]] by simp
  show ?case using a b by (auto simp: bind_eq_Inl)
next
  case (7 py38 test body orelse l c e v)
  let ?v0 = "visit_expr test (enter_loop py38 l e v)"
  have e0: "(stack ?v0 \<noteq> []) = (stack v \<noteq> [])" by simp
  have a: "visit_stmts py38 body ?v0 \<noteq> Inl EmptyStack"
    using "7.IH"(1) "7.prems" e0 by simp
  have b: "visit_stmts py38 orelse v1 \<noteq> Inl EmptyStack" if "visit_stmts py38 body ?v0 = Inr v1" for v1
    using "7.IH"(2)[of v1] "7.prems" e0 steps_empty_iff[OF visit_steps(2)[OF that]] by simp
  show ?case using a b by (auto simp: bind_eq_Inl)
next
  case (8 py38 test body orelse l c v)
  let ?v0 = "visit_expr test v"
  have e0: "(stack ?v0 \<noteq> []) = (stack v \<noteq> [])" by simp
  have a: "visit_stmts py38 body ?v0 \<noteq> Inl EmptyStack"
    using "8.IH"(1) "8.prems" e0 by simp
  have b: "visit_stmts py38 orelse v1 \<noteq> Inl EmptyStack" if "visit_stmts py38 body ?v0 = Inr v1" for v1
    using "8.IH"(2)[of v1] "8.prems" e0 steps_empty_iff[OF visit_steps(2)[OF that]] by simp
  show ?case using a b by (auto simp: bind_eq_Inl)
next
  case (9 py38 items body l c v)
  have e0: "(stack (visit_exprs items v) \<noteq> []) = (stack v \<noteq> [])" by simp
  with "9.IH" "9.prems" show ?case by simp
next
  case (10 py38 items body l c v)
  have e0: "(stack (visit_exprs items v) \<noteq> []) = (stack v \<noteq> [])" by simp
  with "10.IH" "10.prems" show ?case by simp
next
  case (12 py38 body handlers orelse finalbody l c e v)
  let ?v0 = "enter_try py38 l e v"
  have e0: "(stack ?v0 \<noteq> []) = (stack v \<noteq> [])" by simp
  have a: "visit_stmts py38 body ?v0 \<noteq> Inl EmptyStack"
    using "12.IH"(1) "12.prems" e0 by simp
  have b: "visit_stmts py38 handlers v1 \<noteq> Inl EmptyStack"
    if "visit_stmts py38 body ?v0 = Inr v1" for v1
    using "12.IH"(2)[of v1] "12.prems" e0 steps_empty_iff[OF visit_steps(2)[OF that]] by simp
  have c: "visit_stmts py38 orelse v2 \<noteq> Inl EmptyStack"
    if "visit_stmts py38 body ?v0 = Inr v1" "visit_stmts py38 handlers v1 = Inr v2" for v1 v2
    using "12.IH"(3)[of v2] "12.prems" e0 steps_empty_iff[OF visit_steps(2)[OF that(1)]]
      steps_empty_iff[OF visit_steps(2)[OF that(2)]] by simp
  have d: "visit_stmts py38 finalbody v3 \<noteq> Inl EmptyStack"
    if "visit_stmts py38 body ?v0 = Inr v1" "visit_stmts py38 handlers v1 = Inr v2"
      "visit_stmts py38 orelse v2 = Inr v3" for v1 v2 v3
    using "12.IH"(4)[of v3] "12.prems" e0 steps_empty_iff[OF visit_steps(2)[OF that(1)]]
      steps_empty_iff[OF visit_steps(2)[OF that(2)]] steps_empty_iff[OF visit_steps(2)[OF that(3)]]
    by simp
  show ?case using a b c d by (auto simp: bind_eq_Inl)
next
  case (16 py38 s ss v)
  have a: "visit_stmt py38 s v \<noteq> Inl EmptyStack" using "16.IH"(1) "16.prems" by simp
  have b: "visit_stmts py38 ss v1 \<noteq> Inl EmptyStack" if "visit_stmt py38 s v = Inr v1" for v1
    using "16.IH"(2)[of v1] "16.prems" steps_empty_iff[OF visit_steps(1)[OF that]] by simp
  show ?case using a b by (auto simp: bind_eq_Inl)
next
  case (20 py38 n ns v)
  have a: "visit_child py38 n v \<noteq> Inl EmptyStack" using "20.IH"(1) "20.prems" by simp
  have b: "visit_children py38 ns v1 \<noteq> Inl EmptyStack" if "visit_child py38 n v = Inr v1" for v1
    using "20.IH"(2)[of v1] "20.prems" steps_empty_iff[OF visit_steps(3)[OF that]] by simp
  show ?case using a b by (auto simp: bind_eq_Inl)
qed auto


lemma visit_enclosed:
  "visit_stmt py38 s v = Inr v' \<Longrightarrow> enclosed (stack v \<noteq> []) s"
  "visit_stmts py38 ss v = Inr v' \<Longrightarrow> enclosed_list (stack v \<noteq> []) ss"
  "visit_child py38 ch v = Inr v' \<Longrightarrow> enclosed_child (stack v \<noteq> []) ch"
  "visit_children py38 chs v = Inr v' \<Longrightarrow> enclosed_children (stack v \<noteq> []) chs"
proof (induction py38 s v and py38 ss v and py38 ch v and py38 chs v
    arbitrary: v' and v' and v' and v'
    rule: visit_stmt_visit_stmts_visit_child_visit_children.induct)
  case (1 py38 args body decorator_list rets l c v)
  from "1.prems" obtain v1 where "visit_stmts py38 body (visit_expr args (push v)) = Inr v1"
    by (auto simp: bind_eq_Inr)
  from "1.IH"[OF this] show ?case by (simp add: push_def)
next
  case (2 py38 args body decorator_list rets l c v)
  from "2.prems" obtain v1 where "visit_stmts py38 body (visit_expr args (push v)) = Inr v1"
    by (auto simp: bind_eq_Inr)
  from "2.IH"[OF this] show ?case by (simp add: push_def)
next
  case (3 py38 val l c v)
  then show ?case by (cases "stack v") auto
next
  case (5 py38 target iter body orelse l c e v)
  let ?v0 = "visit_expr iter (visit_expr target (enter_loop py38 l e v))"
  from "5.prems" obtain v1 v2 where
    a: "visit_stmts py38 body ?v0 = Inr v1" and b: "visit_stmts py38 orelse v1 = Inr v2"
    by (auto simp: bind_eq_Inr)
  from "5.IH"(1)[OF a] "5.IH"(2)[OF b] steps_empty_iff[OF visit_steps(2)[OF a]]
  show ?case by simp
next
  case (6 py38 target iter body orelse l c e v)
  let ?v0 = "visit_expr iter (visit_expr target (enter_loop py38 l e v))"
  from "6.prems" obtain v1 v2 where
    a: "visit_stmts py38 body ?v0 = Inr v1" and b: "visit_stmts py38 orelse v1 = Inr v2"
    by (auto simp: bind_eq_Inr)
  from "6.IH"(1)[OF a] "6.IH"(2)[OF b] steps_empty_iff[OF visit_steps(2)[OF a]]
  show ?case by simp
next
  case (7 py38 test body orelse l c e v)
  let ?v0 = "visit_expr test (enter_loop py38 l e v)"
  from "7.prems" obtain v1 v2 where
    a: "visit_stmts py38 body ?v0 = Inr v1" and b: "visit_stmts py38 orelse v1 = Inr v2"
    by (auto simp: bind_eq_Inr)
  from "7.IH"(1)[OF a] "7.IH"(2)[OF b] steps_empty_iff[OF visit_steps(2)[OF a]]
  show ?case by simp
next
  case (8 py38 test body orelse l c v)
  from "8.prems" obtain v1 where
    a: "visit_stmts py38 body (visit_expr test v) = Inr v1" and b: "visit_stmts py38 orelse v1 = Inr v'"
    by (auto simp: bind_eq_Inr)
  from "8.IH"(1)[OF a] "8.IH"(2)[OF b] steps_empty_iff[OF visit_steps(2)[OF a]]
  show ?case by simp
next
  case (9 py38 items body l c v)
  from "9.IH"[of v'] "9.prems" show ?case by simp
next
  case (10 py38 items body l c v)
  from "10.IH"[of v'] "10.prems" show ?case by simp
next
  case (12 py38 body handlers orelse finalbody l c e v)
  from "12.prems" obtain v1 v2 v3 where
    a: "visit_stmts py38 body (enter_try py38 l e v) = Inr v1"
    and b: "visit_stmts py38 handlers v1 = Inr v2"
    and c: "visit_stmts py38 orelse v2 = Inr v3"
    and d: "visit_stmts py38 finalbody v3 = Inr v'"
    by (auto simp: bind_eq_Inr)
  from "12.IH"(1)[OF a] "12.IH"(2)[OF b] "12.IH"(3)[OF c] "12.IH"(4)[OF d]
    steps_empty_iff[OF visit_steps(2)[OF a]] steps_empty_iff[OF visit_steps(2)[OF b]]
    steps_empty_iff[OF visit_steps(2)[OF c]]
  show ?case by simp
next
  case (16 py38 s ss v)
  from "16.prems" obtain v1 where
    a: "visit_stmt py38 s v = Inr v1" and b: "visit_stmts py38 ss v1 = Inr v'"
    by (auto simp: bind_eq_Inr)
  from "16.IH"(1)[OF a] "16.IH"(2)[OF b] steps_empty_iff[OF visit_steps(1)[OF a]]
  show ?case by simp
next
  case (20 py38 n ns v)
  from "20.prems" obtain v1 where
    a: "visit_child py38 n v = Inr v1" and b: "visit_children py38 ns v1 = Inr v'"
    by (auto simp: bind_eq_Inr)
  from "20.IH"(1)[OF a] "20.IH"(2)[OF b] steps_empty_iff[OF visit_steps(3)[OF a]]
  show ?case by simp
qed auto

section \<open>The unnecessary-assignment check\<close>

lemma within_block_iff:
  "within_block item spans \<longleftrightarrow>
     (\<exists>start stop. (start, stop) \<in> set spans \<and> start < item \<and> item \<le> stop)"
  by (induction item spans rule: within_block.induct) auto

lemma within_try_or_loop_iff:
  "within_try_or_loop ts ls items \<longleftrightarrow>
     (\<exists>item \<in> set items. within_block item ts \<or> within_block item ls)"
  by (induction items) auto

lemma within_block_mono:
  "set spans \<subseteq> set spans' \<Longrightarrow> within_block item spans \<Longrightarrow> within_block item spans'"
  unfolding within_block_iff by blast

lemma within_try_or_loop_mono:
  "set ts \<subseteq> set ts' \<Longrightarrow> set ls \<subseteq> set ls' \<Longrightarrow> within_try_or_loop ts ls items \<Longrightarrow>
     within_try_or_loop ts' ls' items"
  unfolding within_try_or_loop_iff by (blast intro: within_block_mono)

lemma refs_loop_own_line:
  "\<forall>l \<in> set ref_lines. l = return_lineno \<Longrightarrow>
     \<not> refs_loop return_lineno before_assign after_assign ref_lines"
  by (induction ref_lines) auto

lemma scope_ok_new_scope: "scope_ok py38 new_scope"
  by (simp add: scope_ok_def new_scope_def)

lemma walk_function_steps:
  assumes "walk_function py38 args body decorator_list rets v = Inr v2"
  shows "steps py38 (push v) v2"
proof -
  from assms obtain v1 where v1: "visit_stmts py38 body (visit_expr args (push v)) = Inr v1"
    and v2: "v2 = visit_expr_opt rets (visit_exprs decorator_list v1)"
    by (auto simp: walk_function_def bind_eq_Inr)
  show ?thesis
    unfolding v2
    using visit_steps(2)[OF v1] steps_visit_expr(1)[of py38 "push v" args]
      steps_visit_expr(2)[of py38 v1 decorator_list]
      steps_visit_expr(3)[of py38 "visit_exprs decorator_list v1" rets]
    by (blast intro: steps_trans)
qed

lemma walk_function_scope_ok:
  assumes "walk_function py38 args body decorator_list rets v = Inr v2"
    and "stack v2 = sc # rest"
  shows "scope_ok py38 sc" and "rest = stack v"
proof -
  have "stack (push v) = new_scope # stack v" by (simp add: push_def)
  with walk_function_steps[OF assms(1)] scope_ok_new_scope[of py38]
  obtain sc' where "stack v2 = sc' # stack v" "scope_ok py38 sc'"
    unfolding steps_def by blast
  with assms(2) show "scope_ok py38 sc" and "rest = stack v" by simp_all
qed

lemma flagged_mono:
  assumes "set (tries sc) \<subseteq> set ts" and "set (loops sc) \<subseteq> set ls"
    and "flagged py38 (sc\<lparr>tries := ts, loops := ls\<rparr>) name l"
  shows "flagged py38 sc name l"
  using assms within_try_or_loop_mono[OF assms(1,2)]
  by (auto simp: flagged_def has_refs_or_assigns_within_try_or_loop_def split: option.splits)

lemma add_errors_neq: "D \<noteq> [] \<Longrightarrow> add_errors D v \<noteq> v"
proof
  assume "D \<noteq> []" "add_errors D v = v"
  then have "errors (add_errors D v) = errors v" by simp
  with \<open>D \<noteq> []\<close> show False by simp
qed

lemma check_unnecessary_assign_silent_iff:
  assumes "stack v = sc # rest"
  shows "check_unnecessary_assign py38 (Name name l c) v = Inr v \<longleftrightarrow> \<not> flagged py38 sc name l"
  using check_unnecessary_assign_flagged[OF assms, of py38 name l c]
    add_errors_neq[of "[Diagnostic UnnecessaryAssign l c]" v]
  by (auto simp del: check_unnecessary_assign.simps)

lemma walk_function_single_return_assigns:
  assumes "walk_function py38 args [Return val l c] decorator_list rets v = Inr v2"
    and "stack v2 = sc # rest"
  shows "assigns sc = Map.empty"
  using assms
  by (auto simp: walk_function_def push_def visit_expr_reads visit_expr_opt_reads new_scope_def)

lemma has_refs_before_next_assign_own_line:
  "\<forall>l \<in> set ref_lines. l = return_lineno \<Longrightarrow>
     \<not> has_refs_before_next_assign assign_lines ref_lines return_lineno"
  by (simp add: has_refs_before_next_assign_def refs_loop_own_line split: prod.splits)

lemma count_assign_findings:
  "count_list (assign_findings py38 sc rs) (Diagnostic UnnecessaryAssign L c) =
     length (filter (\<lambda>n. \<exists>y. return_value n = Some (Name y L c) \<and> flagged py38 sc y L) rs)"
  by (induction rs)
    (auto simp: assign_findings_def assign_finding_def split: option.splits expr.splits)

lemma count_list_other_kind:
  "\<forall>d \<in> set D. kind d \<noteq> k \<Longrightarrow> count_list D (Diagnostic k l c) = 0"
  by (auto simp: count_list_0_iff)

section \<open>The findings of one function definition\<close>



section \<open>Properties\<close>

text \<open>
  C7. A function whose body is exactly one statement, a \<^verbatim>\<open>return\<close> with or without a
  value, gets no finding: the visit of its definition (plain or async) succeeds and
  leaves the visitor as it was, findings included, whatever the arguments, the decorators
  and the annotation are.
\<close>

theorem trivial_body_exempt:
  "visit_stmt py38 (FunctionDef args [Return val l c] decorator_list rets l' c') v = Inr v
   \<and> visit_stmt py38 (AsyncFunctionDef args [Return val l c] decorator_list rets l' c') v = Inr v"
  by (simp add: push_def pop_def check_function_def visit_expr_reads visit_expr_opt_reads)

theorem trivial_body_exempt_witness:
  "run True [example_return_none] = Inr []"
  using trivial_body_exempt [of True "OtherExpr []" "Some (Constant NoneLit)" 2 4 "[]" None 1 0 initial]
  by (simp add: run_def example_return_none_def initial_def)

text \<open>
  C9. With no scope on the stack (module-level code), the visit of a \<^verbatim>\<open>Name\<close> and the
  visit of an \<^verbatim>\<open>Assign\<close> change nothing: the state, with its occurrence maps and its
  findings, is the one before, and the visit of the \<^verbatim>\<open>Assign\<close> does not fail.
\<close>

theorem module_level_name_assign_ignored:
  "stack v = [] \<Longrightarrow>
     visit_expr (Name name l c) v = v \<and> visit_stmt py38 (Assign targets val l' c') v = Inr v"
  by (simp add: visit_Name_def)

theorem module_level_name_assign_ignored_witness:
  "stack initial = []
   \<and> visit_expr (Name ''x'' 1 4) initial = initial
   \<and> visit_stmt True (Assign [Name ''x'' 1 0] (Name ''y'' 1 4) 1 0) initial = Inr initial"
proof -
  have h: "stack initial = []" by (simp add: initial_def)
  show ?thesis
    using h module_level_name_assign_ignored [OF h, of "''x''" 1 4 True "[Name ''x'' 1 0]" "Name ''y'' 1 4" 1 0]
    by simp
qed

text \<open>
  C6. \<^verbatim>\<open>_check_implicit_return\<close> on a \<^verbatim>\<open>Return\<close>, a \<^verbatim>\<open>Raise\<close>, a \<^verbatim>\<open>While\<close> or a \<^verbatim>\<open>Try\<close>
  emits nothing, whatever the node holds: a loop with any condition and any body, a
  \<^verbatim>\<open>try\<close> with any body and handlers.
\<close>

theorem self_terminating_not_flagged:
  "check_implicit_return (Return val l c) v = Inr v
   \<and> check_implicit_return (Raise exc cause l c) v = Inr v
   \<and> check_implicit_return (While test body orelse l c e) v = Inr v
   \<and> check_implicit_return (Try body handlers orelse finalbody l c e) v = Inr v"
  by simp

theorem self_terminating_not_flagged_witness:
  "check_implicit_return (While (Constant FalseLit) [OtherStmt [] 3 8] [] 2 4 (Some 3)) initial = Inr initial
   \<and> check_implicit_return (Try [OtherStmt [] 3 8] [] [] [OtherStmt [] 5 8] 2 4 (Some 5)) initial = Inr initial"
  using self_terminating_not_flagged [where v = initial and test = "Constant FalseLit"
      and body = "[OtherStmt [] 3 8]" and orelse = "[]" and l = 2 and c = 4 and e = "Some 3"]
    self_terminating_not_flagged [where v = initial and body = "[OtherStmt [] 3 8]" and handlers = "[]"
      and orelse = "[]" and finalbody = "[OtherStmt [] 5 8]" and l = 2 and c = 4 and e = "Some 5"]
  by simp

text \<open>
  C2. For a scope, with \<open>emitted v v'\<close> the findings that \<^verbatim>\<open>_check_function\<close> adds: when
  some recorded return has a value that is not the None literal, none of them is an
  UnnecessaryReturnNone; otherwise none of them is an ImplicitReturnValue. So the two
  classes never occur together for one scope.
\<close>

theorem return_none_and_implicit_value_exclusive:
  assumes "stack v = sc # rest" and "check_function py38 body v = Inr v'"
  shows "(result_exists (returns sc) \<longrightarrow> of_kind UnnecessaryReturnNone (emitted v v') = [])
       \<and> (\<not> result_exists (returns sc) \<longrightarrow> of_kind ImplicitReturnValue (emitted v v') = [])
       \<and> (of_kind UnnecessaryReturnNone (emitted v v') = [] \<or> of_kind ImplicitReturnValue (emitted v v') = [])"
proof -
  have "of_kind UnnecessaryReturnNone (emitted v v') = []" if "result_exists (returns sc)"
    using assms that
    by (auto simp: check_function_eq[OF assms(1)] bind_eq_Inr of_kind_map_finding
        of_kind_assign_findings of_kind_implicit_return_findings split: if_splits)
  moreover have "of_kind ImplicitReturnValue (emitted v v') = []" if "\<not> result_exists (returns sc)"
    using assms that
    by (auto simp: check_function_eq[OF assms(1)] of_kind_map_finding split: if_splits)
  ultimately show ?thesis by blast
qed

lemma two_none_checked:
  "check_function True two_none_body two_none_walked =
     Inr (two_none_walked\<lparr>errors := [Diagnostic UnnecessaryReturnNone 2 4, Diagnostic UnnecessaryReturnNone 3 4]\<rparr>)"
  by (simp add: check_function_def two_none_body_def two_none_walked_def
      check_unnecessary_return_none_def error_from_node_def error_at_def)

theorem return_none_and_implicit_value_exclusive_witness:
  "stack two_none_walked = [\<lparr>assigns = Map.empty, refs = Map.empty, tries = [], loops = [],
                returns = two_none_body\<rparr>]
   \<and> check_function True two_none_body two_none_walked =
       Inr (two_none_walked\<lparr>errors := [Diagnostic UnnecessaryReturnNone 2 4, Diagnostic UnnecessaryReturnNone 3 4]\<rparr>)
   \<and> of_kind ImplicitReturnValue
        (emitted two_none_walked
          (two_none_walked\<lparr>errors := [Diagnostic UnnecessaryReturnNone 2 4, Diagnostic UnnecessaryReturnNone 3 4]\<rparr>)) = []"
proof -
  have st: "stack two_none_walked = \<lparr>assigns = Map.empty, refs = Map.empty, tries = [], loops = [],
                returns = two_none_body\<rparr> # []"
    by (simp add: two_none_walked_def)
  have nr: "\<not> result_exists (returns \<lparr>assigns = Map.empty, refs = Map.empty, tries = [], loops = [],
                returns = two_none_body\<rparr>)"
    by (simp add: two_none_body_def)
  from return_none_and_implicit_value_exclusive[OF st two_none_checked] nr st two_none_checked
  show ?thesis by simp
qed

text \<open>
  C8. Take the state \<open>v2\<close> after the walk of a function definition, with top scope \<open>sc\<close>,
  and let some recorded return carry a value that is not the None literal. Then the
  ImplicitReturnValue findings that \<^verbatim>\<open>_check_function\<close> adds are exactly one for every
  recorded return without a value, at that node's line and column, in the order of the
  returns. In the witness, \<^verbatim>\<open>if c: return 1\<close> followed by a bare \<^verbatim>\<open>return\<close> on line 3
  gives the one finding at line 3.
\<close>

theorem bare_returns_flagged:
  assumes "walk_function py38 args body decorator_list rets v = Inr v2"
    and "stack v2 = sc # rest"
    and "result_exists (returns sc)"
    and "check_function py38 body v2 = Inr v3"
  shows "of_kind ImplicitReturnValue (emitted v2 v3) =
           map (finding ImplicitReturnValue) (filter (\<lambda>r. return_value r = None) (returns sc))"
proof (cases "length body = 1 \<and> is_Return (last body)")
  case True
  then obtain val l c where body: "body = [Return val l c]"
    by (cases body; cases "hd body") auto
  have rs: "returns sc = [Return val l c]"
    using walk_function_single_return assms(1,2) unfolding body by blast
  with assms(3) have "val \<noteq> None" by (auto split: if_splits)
  with rs assms(4) show ?thesis
    by (simp add: check_function_eq[OF assms(2)] body)
next
  case False
  have "returns sc \<noteq> []" using assms(3) by auto
  moreover have "body \<noteq> []"
    using walk_function_no_body assms(1,2) \<open>returns sc \<noteq> []\<close> by blast
  ultimately show ?thesis
    using False assms(3,4)
    by (auto simp: check_function_eq[OF assms(2)] bind_eq_Inr of_kind_map_finding
        of_kind_assign_findings of_kind_implicit_return_findings)
qed

lemma mixed_walk:
  "walk_function True (OtherExpr []) mixed_body [] None initial = Inr mixed_walked"
  by (simp add: walk_function_def mixed_body_def mixed_walked_def initial_def push_def new_scope_def
      visit_Name_def append_line_def)

lemma mixed_checked:
  "check_function True mixed_body mixed_walked =
     Inr (mixed_walked\<lparr>errors := [Diagnostic ImplicitReturnValue 3 4]\<rparr>)"
  by (simp add: check_function_def mixed_body_def mixed_walked_def check_implicit_return_value_def
      check_unnecessary_assign_returns_def error_from_node_def error_at_def)

theorem bare_returns_flagged_witness:
  "walk_function True (OtherExpr []) mixed_body [] None initial = Inr mixed_walked
   \<and> check_function True mixed_body mixed_walked =
       Inr (mixed_walked\<lparr>errors := [Diagnostic ImplicitReturnValue 3 4]\<rparr>)
   \<and> of_kind ImplicitReturnValue
        (emitted mixed_walked (mixed_walked\<lparr>errors := [Diagnostic ImplicitReturnValue 3 4]\<rparr>)) =
       [Diagnostic ImplicitReturnValue 3 4]"
proof -
  let ?sc = "\<lparr>assigns = Map.empty, refs = [''c'' \<mapsto> [2]], tries = [], loops = [],
      returns = [Return (Some (Constant OtherLit)) 2 10, Return None 3 4]\<rparr>"
  have st: "stack mixed_walked = ?sc # []" by (simp add: mixed_walked_def)
  have re: "result_exists (returns ?sc)" by simp
  from bare_returns_flagged[OF mixed_walk st re mixed_checked] mixed_walk mixed_checked
  show ?thesis by (simp add: finding_def)
qed

text \<open>
  C5. Let the last statement of the body be an \<^verbatim>\<open>If\<close> and let some recorded return
  carry a value that is not the None literal. When the \<^verbatim>\<open>If\<close> has an empty \<^verbatim>\<open>body\<close> or an
  empty \<^verbatim>\<open>orelse\<close>, \<^verbatim>\<open>_check_function\<close> succeeds and adds exactly one ImplicitReturn, at
  the \<^verbatim>\<open>If\<close>. When both are present, \<^verbatim>\<open>_check_implicit_return\<close> on the \<^verbatim>\<open>If\<close> is the
  check of the last statement of \<^verbatim>\<open>body\<close> followed by the check of the last statement
  of \<^verbatim>\<open>orelse\<close>; and when both of these are returns, \<^verbatim>\<open>_check_function\<close> succeeds and
  adds no ImplicitReturn.
\<close>

theorem implicit_return_at_last_if:
  assumes "stack v = sc # rest" and "result_exists (returns sc)"
    and "body \<noteq> []" and "last body = IfStmt test b orelse l c"
  shows "(b = [] \<or> orelse = [] \<longrightarrow>
            (\<exists>v'. check_function py38 body v = Inr v'
               \<and> of_kind ImplicitReturn (emitted v v') = [Diagnostic ImplicitReturn l c]))
       \<and> (b \<noteq> [] \<and> orelse \<noteq> [] \<longrightarrow>
            check_implicit_return (IfStmt test b orelse l c) v =
              bind (check_implicit_return (last b) v) (check_implicit_return (last orelse)))
       \<and> (b \<noteq> [] \<and> orelse \<noteq> [] \<and> is_Return (last b) \<and> is_Return (last orelse) \<longrightarrow>
            (\<exists>v'. check_function py38 body v = Inr v'
               \<and> of_kind ImplicitReturn (emitted v v') = []))"
proof -
  have rs: "returns sc \<noteq> []" using assms(2) by auto
  have nt: "\<not> (length body = 1 \<and> is_Return (last body))" using assms(4) by simp
  have a: "\<exists>v'. check_function py38 body v = Inr v'
      \<and> of_kind ImplicitReturn (emitted v v') = [Diagnostic ImplicitReturn l c]"
    if "b = [] \<or> orelse = []"
  proof -
    have "implicit_return_findings (last body) = Inr [Diagnostic ImplicitReturn l c]"
      using that assms(4) by (auto simp: finding_def)
    then show ?thesis
      using rs nt assms(2,3)
      by (simp add: check_function_eq[OF assms(1)] of_kind_map_finding of_kind_assign_findings
          of_kind_Cons)
  qed
  have c: "\<exists>v'. check_function py38 body v = Inr v' \<and> of_kind ImplicitReturn (emitted v v') = []"
    if "b \<noteq> []" "orelse \<noteq> []" "is_Return (last b)" "is_Return (last orelse)"
  proof -
    from that(3) obtain val1 l1 c1 where r1: "last b = Return val1 l1 c1"
      by (cases "last b") auto
    from that(4) obtain val2 l2 c2 where r2: "last orelse = Return val2 l2 c2"
      by (cases "last orelse") auto
    have "implicit_return_findings (last body) = Inr []"
      using that(1,2) r1 r2 assms(4) by simp
    then show ?thesis
      using rs nt assms(2,3)
      by (simp add: check_function_eq[OF assms(1)] of_kind_map_finding of_kind_assign_findings)
  qed
  show ?thesis using a c by simp
qed


lemma if_no_else_checked:
  "check_function True if_no_else_body if_no_else_walked =
     Inr (if_no_else_walked\<lparr>errors := [Diagnostic ImplicitReturn 2 4]\<rparr>)"
  by (simp add: check_function_def if_no_else_body_def if_no_else_walked_def
      check_implicit_return_value_def check_unnecessary_assign_returns_def
      error_from_node_def error_at_def)

lemma if_else_checked:
  "check_function True if_else_body if_else_walked = Inr if_else_walked"
  by (simp add: check_function_def if_else_body_def if_else_walked_def
      check_implicit_return_value_def check_unnecessary_assign_returns_def)

theorem implicit_return_at_last_if_witness:
  "check_function True if_no_else_body if_no_else_walked =
       Inr (if_no_else_walked\<lparr>errors := [Diagnostic ImplicitReturn 2 4]\<rparr>)
   \<and> of_kind ImplicitReturn
        (emitted if_no_else_walked (if_no_else_walked\<lparr>errors := [Diagnostic ImplicitReturn 2 4]\<rparr>)) =
       [Diagnostic ImplicitReturn 2 4]
   \<and> check_function True if_else_body if_else_walked = Inr if_else_walked
   \<and> of_kind ImplicitReturn (emitted if_else_walked if_else_walked) = []"
proof -
  let ?sc1 = "\<lparr>assigns = Map.empty, refs = [''c'' \<mapsto> [2]], tries = [], loops = [],
      returns = [Return (Some (Constant OtherLit)) 3 8]\<rparr>"
  let ?sc2 = "\<lparr>assigns = Map.empty, refs = [''c'' \<mapsto> [2]], tries = [], loops = [],
      returns = [Return (Some (Constant OtherLit)) 3 8, Return (Some (Constant OtherLit)) 5 8]\<rparr>"
  have st1: "stack if_no_else_walked = ?sc1 # []" by (simp add: if_no_else_walked_def)
  have st2: "stack if_else_walked = ?sc2 # []" by (simp add: if_else_walked_def)
  have re1: "result_exists (returns ?sc1)" by simp
  have re2: "result_exists (returns ?sc2)" by simp
  have ne1: "if_no_else_body \<noteq> []" by (simp add: if_no_else_body_def)
  have ne2: "if_else_body \<noteq> []" by (simp add: if_else_body_def)
  have l1: "last if_no_else_body =
      IfStmt (Name ''c'' 2 7) [Return (Some (Constant OtherLit)) 3 8] [] 2 4"
    by (simp add: if_no_else_body_def)
  have l2: "last if_else_body =
      IfStmt (Name ''c'' 2 7) [Return (Some (Constant OtherLit)) 3 8]
        [Return (Some (Constant OtherLit)) 5 8] 2 4"
    by (simp add: if_else_body_def)
  from implicit_return_at_last_if[OF st1 re1 ne1 l1, of True]
    implicit_return_at_last_if[OF st2 re2 ne2 l2, of True]
    if_no_else_checked if_else_checked
  show ?thesis by simp
qed

text \<open>
  C10. \<^verbatim>\<open>visit_Return\<close> with an empty stack fails with the \<^verbatim>\<open>IndexError\<close> of
  \<^verbatim>\<open>self._stack[-1]\<close>. A walk that starts with an empty stack and succeeds has every
  \<^verbatim>\<open>Return\<close> of the tree inside a function definition; and when every \<^verbatim>\<open>Return\<close> is
  inside one, the walk never fails with that error.
\<close>

theorem return_needs_enclosing_function:
  "(stack v = [] \<longrightarrow> visit_stmt py38 (Return val l c) v = Inl EmptyStack)
   \<and> (stack v = [] \<and> visit_stmts py38 tree v = Inr v' \<longrightarrow> enclosed_list False tree)
   \<and> (stack v = [] \<and> enclosed_list False tree \<longrightarrow> visit_stmts py38 tree v \<noteq> Inl EmptyStack)"
proof -
  have "enclosed_list False tree" if "stack v = []" "visit_stmts py38 tree v = Inr v'"
    using visit_enclosed(2)[OF that(2)] that(1) by simp
  moreover have "visit_stmts py38 tree v \<noteq> Inl EmptyStack" if "stack v = []" "enclosed_list False tree"
    using enclosed_not_EmptyStack(2)[of v tree py38] that by simp
  ultimately show ?thesis by auto
qed

theorem return_needs_enclosing_function_witness:
  "stack initial = []
   \<and> visit_stmt True (Return None 1 0) initial = Inl EmptyStack
   \<and> run True module_return = Inl EmptyStack
   \<and> \<not> enclosed_list False module_return
   \<and> enclosed_list False [example_assign_return]
   \<and> run True [example_assign_return] = Inr [Diagnostic UnnecessaryAssign 3 11]"
proof -
  have st: "stack initial = []" by (simp add: initial_def)
  have en: "enclosed_list False [example_assign_return]" by (simp add: example_assign_return_def)
  have r: "run True [example_assign_return] = Inr [Diagnostic UnnecessaryAssign 3 11]"
    by (simp add: run_def example_assign_return_def initial_def push_def pop_def new_scope_def
        check_function_def visit_Name_def append_line_def check_implicit_return_value_def
        error_from_node_def error_at_def check_unnecessary_assign_returns_def
        has_refs_before_next_assign_def has_refs_or_assigns_within_try_or_loop_def)
  from return_needs_enclosing_function[of initial True None 1 0 "[example_assign_return]"] st en r
  show ?thesis by (simp add: module_return_def run_def)
qed

text \<open>The walks of two of the examples.\<close>

lemma assign_return_walk:
  "walk_function True (OtherExpr []) assign_return_body [] None initial = Inr assign_return_walked"
  by (simp add: walk_function_def initial_def push_def new_scope_def visit_Name_def append_line_def
      enter_try_def assign_return_body_def assign_return_walked_def)

lemma try_assign_walk:
  "walk_function True (OtherExpr []) try_assign_body [] None initial = Inr try_assign_walked"
  by (simp add: walk_function_def initial_def push_def new_scope_def visit_Name_def append_line_def
      enter_try_def try_assign_body_def try_assign_walked_def)

text \<open>
  C1, as stated, fails. The body of the example holds an assignment that binds \<open>x\<close> and a
  later return of the bare name \<open>x\<close>; the only recorded read of \<open>x\<close> is the return's own,
  and no span is recorded. But the assignment unpacks a value that is no tuple literal,
  \<^verbatim>\<open>visit_Assign\<close> skips it, and the analysis emits nothing.
\<close>

theorem unrecorded_assign_counterexample:
  "walk_function True (OtherExpr []) unpack_body [] None initial = Inr unpack_walked
   \<and> recorded (refs (hd (stack unpack_walked))) ''x'' = [3]
   \<and> recorded (assigns (hd (stack unpack_walked))) ''x'' = []
   \<and> tries (hd (stack unpack_walked)) = [] \<and> loops (hd (stack unpack_walked)) = []
   \<and> check_unnecessary_assign True (Name ''x'' 3 11) unpack_walked = Inr unpack_walked
   \<and> run True [FunctionDef (OtherExpr []) unpack_body [] None 1 0] = Inr []"
  by (simp add: walk_function_def run_def initial_def push_def pop_def new_scope_def visit_Name_def
      append_line_def unpack_body_def unpack_walked_def recorded_def check_function_def
      check_implicit_return_value_def check_unnecessary_assign_returns_def)

text \<open>
  C1, amended: the assignment has to be one that the walk records. Take the state \<open>v2\<close>
  after the walk of a function definition, with top scope \<open>sc\<close>. Let a recorded return
  have the bare name \<open>name\<close> at line \<open>L\<close>, column \<open>c\<close> as its value, let \<open>name\<close> have a
  recorded assignment, let every recorded read of it be on line \<open>L\<close> (the return's own
  read), and let no recorded read or assignment of it lie in a recorded try or loop span.
  Then \<^verbatim>\<open>_check_unnecessary_assign\<close> on that value, in any state with this stack, adds
  exactly one finding, an UnnecessaryAssign at line \<open>L\<close> and column \<open>c\<close>; it is among the
  findings that \<^verbatim>\<open>_check_function\<close> adds; and when no other recorded return has a name at
  that position as its value, \<^verbatim>\<open>_check_function\<close> adds it exactly once.
\<close>

theorem unread_assign_flagged_at_return:
  assumes "walk_function py38 args body decorator_list rets v = Inr v2"
    and "stack v2 = sc # rest"
    and "Return (Some (Name name L c)) l' c' \<in> set (returns sc)"
    and "assigns sc name = Some assign_lines"
    and "\<forall>l \<in> set (recorded (refs sc) name). l = L"
    and "\<forall>item \<in> set (recorded (refs sc) name) \<union> set assign_lines.
           \<not> within_block item (tries sc) \<and> \<not> within_block item (loops sc)"
  shows "(\<forall>w. stack w = sc # rest \<longrightarrow>
             check_unnecessary_assign py38 (Name name L c) w = Inr (error_at UnnecessaryAssign L c w))
       \<and> (\<forall>v3. check_function py38 body v2 = Inr v3 \<longrightarrow>
             Diagnostic UnnecessaryAssign L c \<in> set (of_kind UnnecessaryAssign (emitted v2 v3)))
       \<and> (\<forall>v3. check_function py38 body v2 = Inr v3
              \<and> filter (\<lambda>n. \<exists>y. return_value n = Some (Name y L c)) (returns sc) =
                  [Return (Some (Name name L c)) l' c'] \<longrightarrow>
             count_list (emitted v2 v3) (Diagnostic UnnecessaryAssign L c) = 1)"
proof (intro conjI)
  have fl: "flagged py38 sc name L"
  proof (cases "refs sc name")
    case None
    with assms(4) show ?thesis by (simp add: flagged_def)
  next
    case (Some ref_lines)
    with assms(5) have own: "\<forall>l \<in> set ref_lines. l = L" by (simp add: recorded_def)
    from assms(6) Some have
      "\<not> has_refs_or_assigns_within_try_or_loop sc ref_lines assign_lines"
      unfolding has_refs_or_assigns_within_try_or_loop_def within_try_or_loop_iff
      by (auto simp: recorded_def)
    with has_refs_before_next_assign_own_line[OF own] assms(4) Some show ?thesis
      by (simp add: flagged_def)
  qed
  then show "\<forall>w. stack w = sc # rest \<longrightarrow>
      check_unnecessary_assign py38 (Name name L c) w = Inr (error_at UnnecessaryAssign L c w)"
    using check_unnecessary_assign_flagged[of _ sc rest py38 name L c]
    by (simp add: error_at_add_errors del: check_unnecessary_assign.simps)
  have rs: "returns sc \<noteq> []" using assms(3) by auto
  have re: "result_exists (returns sc)"
    unfolding result_exists_iff using assms(3) by force
  have ne: "body \<noteq> []"
    using walk_function_no_body assms(1,2) rs by blast
  have nt: "\<not> (length body = 1 \<and> is_Return (last body))"
  proof
    assume "length body = 1 \<and> is_Return (last body)"
    then obtain val l c where body: "body = [Return val l c]"
      by (cases body; cases "hd body") auto
    from walk_function_single_return_assigns assms(1,2) have "assigns sc = Map.empty"
      unfolding body by blast
    with assms(4) show False by simp
  qed
  have mem: "Diagnostic UnnecessaryAssign L c \<in> set (assign_findings py38 sc (returns sc))"
    using assms(3) fl by (force simp: assign_findings_def assign_finding_def)
  show "\<forall>v3. check_function py38 body v2 = Inr v3 \<longrightarrow>
      Diagnostic UnnecessaryAssign L c \<in> set (of_kind UnnecessaryAssign (emitted v2 v3))"
    using rs re ne nt mem
    by (auto simp: check_function_eq[OF assms(2)] bind_eq_Inr of_kind_assign_findings)
  show "\<forall>v3. check_function py38 body v2 = Inr v3
      \<and> filter (\<lambda>n. \<exists>y. return_value n = Some (Name y L c)) (returns sc) =
          [Return (Some (Name name L c)) l' c'] \<longrightarrow>
      count_list (emitted v2 v3) (Diagnostic UnnecessaryAssign L c) = 1"
  proof (intro allI impI, elim conjE)
    fix v3
    let ?P = "\<lambda>n. \<exists>y. return_value n = Some (Name y L c)"
    let ?Q = "\<lambda>n. \<exists>y. return_value n = Some (Name y L c) \<and> flagged py38 sc y L"
    let ?irv = "map (finding ImplicitReturnValue) (filter (\<lambda>r. return_value r = None) (returns sc))"
    assume chk: "check_function py38 body v2 = Inr v3"
      and uniq: "filter ?P (returns sc) = [Return (Some (Name name L c)) l' c']"
    from chk rs re ne nt obtain D where D: "implicit_return_findings (last body) = Inr D"
      and em: "emitted v2 v3 = ?irv @ D @ assign_findings py38 sc (returns sc)"
      by (auto simp: check_function_eq[OF assms(2)] bind_eq_Inr)
    have "filter ?Q (returns sc) = filter ?Q (filter ?P (returns sc))"
      by (simp add: conj_commute cong: conj_cong) (metis (mono_tags, lifting))
    also have "\<dots> = [Return (Some (Name name L c)) l' c']"
      unfolding uniq using fl by simp
    finally have one: "length (filter ?Q (returns sc)) = 1" by simp
    have "count_list ?irv (Diagnostic UnnecessaryAssign L c) = 0"
      by (rule count_list_other_kind) auto
    moreover have "count_list D (Diagnostic UnnecessaryAssign L c) = 0"
      by (rule count_list_other_kind) (auto dest: kind_implicit_return_findings[OF D])
    ultimately show "count_list (emitted v2 v3) (Diagnostic UnnecessaryAssign L c) = 1"
      unfolding em using one by (simp add: count_assign_findings)
  qed
qed

theorem unread_assign_flagged_at_return_witness:
  "walk_function True (OtherExpr []) assign_return_body [] None initial = Inr assign_return_walked
   \<and> check_unnecessary_assign True (Name ''x'' 3 11) assign_return_walked =
       Inr (assign_return_walked\<lparr>errors := [Diagnostic UnnecessaryAssign 3 11]\<rparr>)
   \<and> check_function True assign_return_body assign_return_walked =
       Inr (assign_return_walked\<lparr>errors := [Diagnostic UnnecessaryAssign 3 11]\<rparr>)
   \<and> count_list
        (emitted assign_return_walked
          (assign_return_walked\<lparr>errors := [Diagnostic UnnecessaryAssign 3 11]\<rparr>))
        (Diagnostic UnnecessaryAssign 3 11) = 1"
proof -
  let ?sc = "\<lparr>assigns = [''x'' \<mapsto> [2]], refs = [''x'' \<mapsto> [3]], tries = [], loops = [],
      returns = [Return (Some (Name ''x'' 3 11)) 3 4]\<rparr>"
  have st: "stack assign_return_walked = ?sc # []" by (simp add: assign_return_walked_def)
  have ret: "Return (Some (Name ''x'' 3 11)) 3 4 \<in> set (returns ?sc)" by simp
  have asg: "assigns ?sc ''x'' = Some [2]" by simp
  have own: "\<forall>l \<in> set (recorded (refs ?sc) ''x''). l = 3" by (simp add: recorded_def)
  have nospan: "\<forall>item \<in> set (recorded (refs ?sc) ''x'') \<union> set [2].
      \<not> within_block item (tries ?sc) \<and> \<not> within_block item (loops ?sc)"
    by (simp add: recorded_def)
  have chk: "check_function True assign_return_body assign_return_walked =
      Inr (assign_return_walked\<lparr>errors := [Diagnostic UnnecessaryAssign 3 11]\<rparr>)"
    by (simp add: check_function_def assign_return_body_def assign_return_walked_def
        check_implicit_return_value_def check_unnecessary_assign_returns_def error_at_def
        has_refs_before_next_assign_def has_refs_or_assigns_within_try_or_loop_def)
  have uniq: "filter (\<lambda>n. \<exists>y. return_value n = Some (Name y 3 11)) (returns ?sc) =
      [Return (Some (Name ''x'' 3 11)) 3 4]"
    by simp
  from unread_assign_flagged_at_return[OF assign_return_walk st ret asg own nospan]
    st assign_return_walk chk uniq
  show ?thesis by (simp add: error_at_def assign_return_walked_def)
qed

text \<open>
  C3. Take the state \<open>v2\<close> after the walk of a function definition, with top scope \<open>sc\<close>,
  and a recorded return of the bare name \<open>name\<close>. If a recorded read or assignment line of
  \<open>name\<close> lies in a recorded try or loop span (\<open>start < item\<close> and \<open>item \<le> stop\<close>), then
  \<^verbatim>\<open>_check_unnecessary_assign\<close> on that return adds nothing, in any state with this stack;
  and when no other recorded return has a name at that position as its value,
  \<^verbatim>\<open>_check_function\<close> emits no UnnecessaryAssign there. And spans never add a finding: a
  check that adds nothing in a scope adds nothing when \<open>tries\<close> and \<open>loops\<close> hold more
  spans and the rest of the scope is the same. In the witness the finding appears once
  the span of the \<^verbatim>\<open>try\<close> is taken away.
\<close>

theorem span_suppresses_unnecessary_assign:
  assumes "walk_function py38 args body decorator_list rets v = Inr v2"
    and "stack v2 = sc # rest"
    and "Return (Some (Name name L c)) l' c' \<in> set (returns sc)"
    and "item \<in> set (recorded (refs sc) name) \<union> set (recorded (assigns sc) name)"
    and "(start, stop) \<in> set (tries sc) \<union> set (loops sc)"
    and "start < item" and "item \<le> stop"
  shows "(\<forall>w. stack w = sc # rest \<longrightarrow> check_unnecessary_assign py38 (Name name L c) w = Inr w)
       \<and> (\<forall>v3. check_function py38 body v2 = Inr v3
              \<and> filter (\<lambda>n. \<exists>y. return_value n = Some (Name y L c)) (returns sc) =
                  [Return (Some (Name name L c)) l' c'] \<longrightarrow>
             Diagnostic UnnecessaryAssign L c \<notin> set (emitted v2 v3))
       \<and> (\<forall>w ts ls e. stack w = sc # rest \<and> set (tries sc) \<subseteq> set ts \<and> set (loops sc) \<subseteq> set ls
              \<and> check_unnecessary_assign py38 e w = Inr w \<longrightarrow>
            check_unnecessary_assign py38 e (w\<lparr>stack := sc\<lparr>tries := ts, loops := ls\<rparr> # rest\<rparr>) =
              Inr (w\<lparr>stack := sc\<lparr>tries := ts, loops := ls\<rparr> # rest\<rparr>))"
proof (intro conjI)
  have ok: "scope_ok py38 sc" using walk_function_scope_ok(1)[OF assms(1,2)] .
  from ok assms(5) have py38: py38 unfolding scope_ok_def by auto
  from ok assms(3) obtain ref_lines where rl: "refs sc name = Some ref_lines"
    unfolding scope_ok_def by fastforce
  have nf: "\<not> flagged py38 sc name L"
  proof (cases "assigns sc name")
    case None
    then show ?thesis by (simp add: flagged_def)
  next
    case (Some assign_lines)
    from assms(4) rl Some have "item \<in> set (ref_lines @ assign_lines)"
      by (simp add: recorded_def)
    moreover have "within_block item (tries sc) \<or> within_block item (loops sc)"
      using assms(5,6,7) unfolding within_block_iff by blast
    ultimately have "has_refs_or_assigns_within_try_or_loop sc ref_lines assign_lines"
      unfolding has_refs_or_assigns_within_try_or_loop_def within_try_or_loop_iff by blast
    with py38 rl Some show ?thesis by (simp add: flagged_def)
  qed
  then show "\<forall>w. stack w = sc # rest \<longrightarrow> check_unnecessary_assign py38 (Name name L c) w = Inr w"
    using check_unnecessary_assign_silent_iff by blast
  show "\<forall>v3. check_function py38 body v2 = Inr v3
      \<and> filter (\<lambda>n. \<exists>y. return_value n = Some (Name y L c)) (returns sc) =
          [Return (Some (Name name L c)) l' c'] \<longrightarrow>
      Diagnostic UnnecessaryAssign L c \<notin> set (emitted v2 v3)"
  proof (intro allI impI, elim conjE)
    fix v3
    let ?P = "\<lambda>n. \<exists>y. return_value n = Some (Name y L c)"
    let ?Q = "\<lambda>n. \<exists>y. return_value n = Some (Name y L c) \<and> flagged py38 sc y L"
    assume chk: "check_function py38 body v2 = Inr v3"
      and uniq: "filter ?P (returns sc) = [Return (Some (Name name L c)) l' c']"
    have "filter ?Q (returns sc) = filter ?Q (filter ?P (returns sc))"
      by (simp add: conj_commute cong: conj_cong) (metis (mono_tags, lifting))
    also have "\<dots> = []" unfolding uniq using nf by simp
    finally have "count_list (assign_findings py38 sc (returns sc)) (Diagnostic UnnecessaryAssign L c) = 0"
      by (simp add: count_assign_findings)
    then have ua: "Diagnostic UnnecessaryAssign L c \<notin> set (assign_findings py38 sc (returns sc))"
      by (simp add: count_list_0_iff)
    from chk show "Diagnostic UnnecessaryAssign L c \<notin> set (emitted v2 v3)"
      unfolding check_function_eq[OF assms(2)]
      using ua
      by (auto simp: bind_eq_Inr finding_def split: if_splits
          dest: kind_implicit_return_findings)
  qed
next
  show "\<forall>w ts ls e. stack w = sc # rest \<and> set (tries sc) \<subseteq> set ts \<and> set (loops sc) \<subseteq> set ls
              \<and> check_unnecessary_assign py38 e w = Inr w \<longrightarrow>
            check_unnecessary_assign py38 e (w\<lparr>stack := sc\<lparr>tries := ts, loops := ls\<rparr> # rest\<rparr>) =
              Inr (w\<lparr>stack := sc\<lparr>tries := ts, loops := ls\<rparr> # rest\<rparr>)"
  proof (intro allI impI, elim conjE)
    fix w ts ls e
    assume st: "stack w = sc # rest" and sub: "set (tries sc) \<subseteq> set ts" "set (loops sc) \<subseteq> set ls"
      and silent: "check_unnecessary_assign py38 e w = Inr w"
    let ?w' = "w\<lparr>stack := sc\<lparr>tries := ts, loops := ls\<rparr> # rest\<rparr>"
    have st': "stack ?w' = sc\<lparr>tries := ts, loops := ls\<rparr> # rest" by simp
    show "check_unnecessary_assign py38 e ?w' = Inr ?w'"
    proof (cases e)
      case (Name name l c)
      from silent have "\<not> flagged py38 sc name l"
        unfolding Name check_unnecessary_assign_silent_iff[OF st] .
      with flagged_mono[OF sub] have "\<not> flagged py38 (sc\<lparr>tries := ts, loops := ls\<rparr>) name l"
        by blast
      then show ?thesis
        unfolding Name check_unnecessary_assign_silent_iff[OF st'] .
    qed simp_all
  qed
qed

theorem span_suppresses_unnecessary_assign_witness:
  "walk_function True (OtherExpr []) try_assign_body [] None initial = Inr try_assign_walked
   \<and> check_unnecessary_assign True (Name ''x'' 6 11) try_assign_walked = Inr try_assign_walked
   \<and> check_unnecessary_assign True (Name ''x'' 6 11)
        (try_assign_walked\<lparr>stack := map (\<lambda>sc. sc\<lparr>tries := []\<rparr>) (stack try_assign_walked)\<rparr>) =
       Inr (try_assign_walked\<lparr>stack := map (\<lambda>sc. sc\<lparr>tries := []\<rparr>) (stack try_assign_walked),
              errors := [Diagnostic UnnecessaryAssign 6 11]\<rparr>)"
proof -
  let ?sc = "\<lparr>assigns = [''x'' \<mapsto> [3]],
      refs = [''g'' \<mapsto> [3], ''E'' \<mapsto> [4], ''x'' \<mapsto> [6]],
      tries = [(2, 5)], loops = [],
      returns = [Return (Some (Name ''x'' 6 11)) 6 4]\<rparr>"
  have st: "stack try_assign_walked = ?sc # []" by (simp add: try_assign_walked_def)
  have ret: "Return (Some (Name ''x'' 6 11)) 6 4 \<in> set (returns ?sc)" by simp
  have item: "3 \<in> set (recorded (refs ?sc) ''x'') \<union> set (recorded (assigns ?sc) ''x'')"
    by (simp add: recorded_def)
  have span: "(2, 5) \<in> set (tries ?sc) \<union> set (loops ?sc)" by simp
  have unwrapped: "check_unnecessary_assign True (Name ''x'' 6 11)
        (try_assign_walked\<lparr>stack := map (\<lambda>sc. sc\<lparr>tries := []\<rparr>) (stack try_assign_walked)\<rparr>) =
       Inr (try_assign_walked\<lparr>stack := map (\<lambda>sc. sc\<lparr>tries := []\<rparr>) (stack try_assign_walked),
              errors := [Diagnostic UnnecessaryAssign 6 11]\<rparr>)"
    by (simp add: try_assign_walked_def error_at_def has_refs_before_next_assign_def
        has_refs_or_assigns_within_try_or_loop_def)
  from span_suppresses_unnecessary_assign[OF try_assign_walk st ret item span] st try_assign_walk unwrapped
  show ?thesis by simp
qed





end
